theory Spec2Isabelle
  imports Complex_Main "HOL-Library.AList"
begin

section \<open>Fieldscope: the graph builder and the drag handlers of the Sankey module\<close>

text \<open>
  The development embeds \<^verbatim>\<open>buildGraph\<close>, \<^verbatim>\<open>safeStr\<close>, \<^verbatim>\<open>renderSankey\<close> up to the
  call of the layout, and the three drag handlers of \<^verbatim>\<open>src/main.js\<close> (the Sankey
  rendering module), and the \<^verbatim>\<open>buildGraph\<close> of the older rendering module.

  Conventions of the embedding:
  \<^item> a JavaScript string is a \<^typ>\<open>string\<close>, one \<^typ>\<open>char\<close> per code unit (code units
    below 256);
  \<^item> a cell of a row is \<open>undefined\<close>, \<open>null\<close> or a scalar; a scalar is kept as the
    string that \<^verbatim>\<open>String(v)\<close> gives for it (for a string, the string itself);
  \<^item> a row is a finite map from column names to cells, a missing column reads as
    \<open>undefined\<close> (the column names are not names of properties that every object
    inherits);
  \<^item> a JavaScript \<^verbatim>\<open>Map\<close> is an association list in insertion order:
    \<^verbatim>\<open>Map.set\<close> is \<^const>\<open>AList.update\<close> (an existing key keeps its place, a new
    key goes to the end), \<^verbatim>\<open>Map.get\<close> is \<^const>\<open>map_of\<close>;
  \<^item> a JavaScript number of the layout is a \<^typ>\<open>real\<close>: the arithmetic of the drag
    handlers (\<open>+\<close>, \<open>-\<close>, halving, \<open>max\<close>, \<open>min\<close>, \<open><\<close>) is exact here, rounding
    is not modelled;
  \<^item> the global \<^verbatim>\<open>d3g\<close> is a flag: \<open>True\<close> when the D3 library is loaded. Reading a
    property of an undefined \<^verbatim>\<open>d3g\<close> is the \<open>TypeError\<close> of the model; an
    \<^verbatim>\<open>Error\<close> thrown with a message is \<open>Error\<close> with that message.
\<close>

subsection \<open>Values, rows and \<^verbatim>\<open>safeStr\<close>\<close>

datatype jsval = JUndefined | JNull | JScalar string

type_synonym row = "string \<rightharpoonup> jsval"

datatype js_error = TypeError | Error string

text \<open>\<^verbatim>\<open>row[col]\<close>: an absent property reads as \<open>undefined\<close>.\<close>

definition getProp :: "row \<Rightarrow> string \<Rightarrow> jsval" where
  "getProp r col = (case r col of None \<Rightarrow> JUndefined | Some v \<Rightarrow> v)"

text \<open>
  The code units below 256 that \<^verbatim>\<open>String.prototype.trim\<close> removes: tab, line feed,
  vertical tab, form feed, carriage return, space and the no-break space.
\<close>

definition isWhiteSpace :: "char \<Rightarrow> bool" where
  "isWhiteSpace c \<longleftrightarrow> of_char c \<in> {9, 10, 11, 12, 13, 32, 160 :: nat}"

definition trim :: "string \<Rightarrow> string" where
  "trim s = rev (dropWhile isWhiteSpace (rev (dropWhile isWhiteSpace s)))"

definition safeStr :: "jsval \<Rightarrow> string" where
  "safeStr v = (case v of JUndefined \<Rightarrow> [] | JNull \<Rightarrow> [] | JScalar s \<Rightarrow> trim s)"

subsection \<open>Nodes, links and the state of \<^verbatim>\<open>buildGraph\<close>\<close>

datatype side = Left | Right

record node =
  nid :: string
  name :: string
  side :: side

record link =
  source :: string
  target :: string
  val :: nat

record entry =
  count :: nat
  refIds :: "nat list"

record graph =
  nodes :: "node list"
  links :: "link list"

text \<open>The three maps that the callback of \<^verbatim>\<open>rows.forEach\<close> updates.\<close>

record builder =
  sources :: "(string \<times> node) list"
  targets :: "(string \<times> node) list"
  linkKeys :: "(string \<times> entry) list"

record build_result =
  graph :: graph
  byLinkKey :: "(string \<times> entry) list"
  refCountMax :: nat

definition getVal :: "row \<Rightarrow> string \<Rightarrow> string" where
  "getVal r col = safeStr (getProp r col)"

definition has :: "('k \<times> 'v) list \<Rightarrow> 'k \<Rightarrow> bool" where
  "has m k \<longleftrightarrow> map_of m k \<noteq> None"

definition sourceNode :: "string \<Rightarrow> node" where
  "sourceNode s = \<lparr>nid = ''S:'' @ s, name = s, side = Left\<rparr>"

definition targetNode :: "string \<Rightarrow> node" where
  "targetNode t = \<lparr>nid = ''T:'' @ t, name = t, side = Right\<rparr>"

definition linkKey :: "string \<Rightarrow> string \<Rightarrow> string" where
  "linkKey s t = s @ ''|||'' @ t"

text \<open>The body of the callback \<^verbatim>\<open>(row, idx) => {...}\<close>; \<open>idx\<close> counts from 0.\<close>

definition visitRow :: "string \<Rightarrow> string \<Rightarrow> builder \<Rightarrow> row \<Rightarrow> nat \<Rightarrow> builder" where
  "visitRow sourceCol targetCol st r idx =
     (let s = getVal r sourceCol;
          t = getVal r targetCol
      in if s = [] \<or> t = [] then st
         else
           let st1 = (if has (sources st) s then st
                      else st\<lparr>sources := AList.update s (sourceNode s) (sources st)\<rparr>);
               st2 = (if has (targets st1) t then st1
                      else st1\<lparr>targets := AList.update t (targetNode t) (targets st1)\<rparr>);
               key = linkKey s t;
               e = (case map_of (linkKeys st2) key of
                      None \<Rightarrow> \<lparr>count = 0, refIds = []\<rparr>
                    | Some e0 \<Rightarrow> e0);
               e1 = e\<lparr>count := count e + 1\<rparr>;
               e2 = e1\<lparr>refIds := refIds e1 @ [idx + 1]\<rparr>
           in st2\<lparr>linkKeys := AList.update key e2 (linkKeys st2)\<rparr>)"

text \<open>\<^verbatim>\<open>rows.forEach(f)\<close>, from index \<open>idx\<close> on.\<close>

fun forEach :: "('s \<Rightarrow> 'a \<Rightarrow> nat \<Rightarrow> 's) \<Rightarrow> 'a list \<Rightarrow> nat \<Rightarrow> 's \<Rightarrow> 's" where
  "forEach f [] idx st = st"
| "forEach f (r # rs) idx st = forEach f rs (idx + 1) (f st r idx)"

text \<open>
  \<^verbatim>\<open>str.split(sep)\<close> for a separator that is not empty: \<open>cur\<close> is the piece read so
  far. The search goes on after the separator, so the pieces do not overlap.
\<close>

fun splitFrom :: "string \<Rightarrow> string \<Rightarrow> string \<Rightarrow> string list" where
  "splitFrom sep cur [] = [cur]"
| "splitFrom sep cur (c # cs) =
     (if sep \<noteq> [] \<and> take (length sep) (c # cs) = sep
      then cur # splitFrom sep [] (drop (length sep - 1) cs)
      else splitFrom sep (cur @ [c]) cs)"

definition split :: "string \<Rightarrow> string \<Rightarrow> string list" where
  "split str sep = splitFrom sep [] str"

text \<open>
  An element of the destructuring \<^verbatim>\<open>const [s, t] = ...\<close> inside a template string:
  a missing element is \<open>undefined\<close> and prints as such.
\<close>

definition element :: "string list \<Rightarrow> nat \<Rightarrow> string" where
  "element xs i = (if i < length xs then xs ! i else ''undefined'')"

definition linkOf :: "string \<times> entry \<Rightarrow> link" where
  "linkOf ke =
     (let parts = split (fst ke) ''|||'';
          s = element parts 0;
          t = element parts 1
      in \<lparr>source = ''S:'' @ s, target = ''T:'' @ t, val = count (snd ke)\<rparr>)"

text \<open>\<^verbatim>\<open>d3.max\<close> of a list of numbers: \<open>undefined\<close> for the empty list.\<close>

definition d3_max :: "nat list \<Rightarrow> nat option" where
  "d3_max xs = (case xs of [] \<Rightarrow> None | x # ys \<Rightarrow> Some (fold max ys x))"

text \<open>\<^verbatim>\<open>v || 1\<close> for a number or \<open>undefined\<close>.\<close>

definition orOne :: "nat option \<Rightarrow> nat" where
  "orOne v = (case v of None \<Rightarrow> 1 | Some n \<Rightarrow> if n = 0 then 1 else n)"

definition emptyBuilder :: builder where
  "emptyBuilder = \<lparr>sources = [], targets = [], linkKeys = []\<rparr>"

definition buildGraph :: "bool \<Rightarrow> row list \<Rightarrow> string \<Rightarrow> string \<Rightarrow> js_error + build_result" where
  "buildGraph d3g rows sourceCol targetCol =
     (let st = forEach (visitRow sourceCol targetCol) rows 0 emptyBuilder;
          ns = map snd (sources st) @ map snd (targets st);
          ls = map linkOf (linkKeys st);
          g = \<lparr>nodes = ns, links = ls\<rparr>
      in if \<not> d3g then Inl TypeError
         else Inr \<lparr>graph = g, byLinkKey = linkKeys st,
                   refCountMax = orOne (d3_max (map val ls))\<rparr>)"

subsection \<open>\<^verbatim>\<open>renderSankey\<close>, up to the call of the layout\<close>

text \<open>
  \<^verbatim>\<open>config\<close> after its destructuring: a column that is \<open>null\<close> or \<open>undefined\<close> is
  \<open>None\<close>. The container gives \<^verbatim>\<open>clientWidth\<close> and \<^verbatim>\<open>clientHeight\<close>.
\<close>

record config =
  cfg_sourceCol :: "string option"
  cfg_targetCol :: "string option"
  cfg_showRefNums :: bool

record container =
  clientWidth :: nat
  clientHeight :: nat

text \<open>
  How far \<^verbatim>\<open>renderSankey\<close> is followed: to a return with the HTML written to
  \<^verbatim>\<open>innerHTML\<close>, or to the point where \<^verbatim>\<open>sankey(graph)\<close> has resolved the ends of all
  links, with the width and height of the drawing and the graph. What the layout and
  the drawing do after that point is not modelled, so \<open>Svg\<close> does not say that the
  function returns.
\<close>

datatype outcome = InnerHTML string | Svg nat nat graph

definition placeholder :: "string \<Rightarrow> string" where
  \<open>placeholder text =
     ''<div style="display:grid;place-items:center;height:100%;color:#94a3b8">'' @ text @ ''</div>''\<close>

text \<open>\<^verbatim>\<open>!col\<close> for a column selection: \<open>null\<close>, \<open>undefined\<close> and the empty string.\<close>

definition unset :: "string option \<Rightarrow> bool" where
  "unset col = (case col of None \<Rightarrow> True | Some c \<Rightarrow> c = [])"

text \<open>\<^verbatim>\<open>n || dflt\<close> for a number.\<close>

definition orDefault :: "nat \<Rightarrow> nat \<Rightarrow> nat" where
  "orDefault n dflt = (if n = 0 then dflt else n)"

text \<open>
  The first step of \<^verbatim>\<open>sankey(graph)\<close>, in the D3 sankey library (which is not part of
  the repository): with the accessor \<^verbatim>\<open>nodeId(d => d.id)\<close>, the source and then the target
  of every link, in the order of the links, are looked up among the ids of the nodes, and
  an id that no node has raises \<^verbatim>\<open>Error("missing: " + id)\<close>. Nothing else of the library
  is modelled.
\<close>

fun computeNodeLinks :: "string list \<Rightarrow> link list \<Rightarrow> js_error + unit" where
  "computeNodeLinks ids [] = Inr ()"
| "computeNodeLinks ids (l # ls) =
     (if source l \<notin> set ids then Inl (Error (''missing: '' @ source l))
      else if target l \<notin> set ids then Inl (Error (''missing: '' @ target l))
      else computeNodeLinks ids ls)"

definition renderSankey :: "bool \<Rightarrow> container \<Rightarrow> row list \<Rightarrow> config \<Rightarrow> js_error + outcome" where
  "renderSankey d3g containerEl rows cfg =
     (if unset (cfg_sourceCol cfg) \<or> unset (cfg_targetCol cfg)
      then Inr (InnerHTML (placeholder ''Select source and target columns to render.''))
      else
        let width = orDefault (clientWidth containerEl) 800;
            height = orDefault (clientHeight containerEl) 480
        in case buildGraph d3g rows (the (cfg_sourceCol cfg)) (the (cfg_targetCol cfg)) of
             Inl err \<Rightarrow> Inl err
           | Inr res \<Rightarrow>
               if links (graph res) = []
               then Inr (InnerHTML (placeholder
                      ''No connections found. Check the selected columns for empty values.''))
               else if \<not> d3g then Inl TypeError
               else
                 case computeNodeLinks (map nid (nodes (graph res))) (links (graph res)) of
                   Inl err \<Rightarrow> Inl err
                 | Inr done \<Rightarrow> Inr (Svg width height (graph res)))"

subsection \<open>The \<^verbatim>\<open>buildGraph\<close> of the older rendering module\<close>

definition safeStr_old :: "jsval \<Rightarrow> string" where
  "safeStr_old v = (case v of JUndefined \<Rightarrow> [] | JNull \<Rightarrow> [] | JScalar s \<Rightarrow> trim s)"

definition getVal_old :: "row \<Rightarrow> string \<Rightarrow> string" where
  "getVal_old r col = safeStr_old (getProp r col)"

definition visitRow_old :: "string \<Rightarrow> string \<Rightarrow> builder \<Rightarrow> row \<Rightarrow> nat \<Rightarrow> builder" where
  "visitRow_old sourceCol targetCol st r idx =
     (let s = getVal_old r sourceCol;
          t = getVal_old r targetCol
      in if s = [] \<or> t = [] then st
         else
           let st1 = (if has (sources st) s then st
                      else st\<lparr>sources :=
                        AList.update s \<lparr>nid = ''S:'' @ s, name = s, side = Left\<rparr> (sources st)\<rparr>);
               st2 = (if has (targets st1) t then st1
                      else st1\<lparr>targets :=
                        AList.update t \<lparr>nid = ''T:'' @ t, name = t, side = Right\<rparr> (targets st1)\<rparr>);
               key = s @ ''|||'' @ t;
               e = (case map_of (linkKeys st2) key of
                      None \<Rightarrow> \<lparr>count = 0, refIds = []\<rparr>
                    | Some e0 \<Rightarrow> e0);
               e1 = e\<lparr>count := count e + 1\<rparr>;
               e2 = e1\<lparr>refIds := refIds e1 @ [idx + 1]\<rparr>
           in st2\<lparr>linkKeys := AList.update key e2 (linkKeys st2)\<rparr>)"

definition buildGraph_old :: "bool \<Rightarrow> row list \<Rightarrow> string \<Rightarrow> string \<Rightarrow> js_error + build_result" where
  "buildGraph_old d3g rows sourceCol targetCol =
     (let st = forEach (visitRow_old sourceCol targetCol) rows 0
                 \<lparr>sources = [], targets = [], linkKeys = []\<rparr>;
          ns = map snd (sources st) @ map snd (targets st);
          ls = map (\<lambda>ke. let parts = split (fst ke) ''|||''
                          in \<lparr>source = ''S:'' @ element parts 0,
                              target = ''T:'' @ element parts 1,
                              val = count (snd ke)\<rparr>) (linkKeys st)
      in if \<not> d3g then Inl TypeError
         else Inr \<lparr>graph = \<lparr>nodes = ns, links = ls\<rparr>, byLinkKey = linkKeys st,
                   refCountMax = orOne (d3_max (map val ls))\<rparr>)"

subsection \<open>The drag handlers\<close>

text \<open>
  After \<^verbatim>\<open>sankey(graph)\<close> every node carries its vertical extent. The handlers hold
  references to the node objects of \<^verbatim>\<open>graph.nodes\<close> and write to them; a reference is
  the position of the node in \<^verbatim>\<open>graph.nodes\<close>, and the dragged node \<open>d\<close> is such a
  position (below the length of the list, as \<open>d\<close> is the datum of a drawn node).
  \<^verbatim>\<open>this\<close> is the element of the dragged node with the three properties the handlers
  keep on it; a property never written is \<open>None\<close>. The handlers also redraw and call
  \<^verbatim>\<open>sankey.update\<close>, which recomputes the links and leaves the extents of the nodes.
\<close>

record lnode = node +
  y0 :: real
  y1 :: real

record element_state =
  peers :: "nat list option"
  heights :: "(string \<times> real) list option"
  insertIdx :: "nat option"

record scene =
  layout :: "lnode list"
  this :: element_state

definition nodePad :: real where
  "nodePad = 14"

text \<open>\<^verbatim>\<open>Math.max(8, n.y1 - n.y0)\<close>\<close>

definition drawnHeight :: "lnode \<Rightarrow> real" where
  "drawnHeight n = max 8 (y1 n - y0 n)"

text \<open>\<^verbatim>\<open>heights.get(n.id) || Math.max(8, n.y1 - n.y0)\<close>\<close>

definition heightOf :: "(string \<times> real) list \<Rightarrow> lnode \<Rightarrow> real" where
  "heightOf hs n =
     (case map_of hs (nid n) of
        None \<Rightarrow> drawnHeight n
      | Some h \<Rightarrow> if h = 0 then drawnHeight n else h)"

text \<open>
  The peers of \<open>d\<close>: the other nodes of its side, sorted by \<open>y0\<close>
  (\<^verbatim>\<open>Array.prototype.sort\<close> is stable, as \<^const>\<open>sort_key\<close> is).
\<close>

definition peersOf :: "lnode list \<Rightarrow> nat \<Rightarrow> nat list" where
  "peersOf ns d =
     sort_key (\<lambda>i. y0 (ns ! i))
       (filter (\<lambda>i. side (ns ! i) = side (ns ! d) \<and> nid (ns ! i) \<noteq> nid (ns ! d)) [0..<length ns])"

text \<open>\<^verbatim>\<open>new Map(graph.nodes.map(n => [n.id, Math.max(8, n.y1 - n.y0)]))\<close>\<close>

definition heightsOf :: "lnode list \<Rightarrow> (string \<times> real) list" where
  "heightsOf ns = fold (\<lambda>n m. AList.update (nid n) (drawnHeight n) m) ns []"

definition onStart :: "nat \<Rightarrow> scene \<Rightarrow> scene" where
  "onStart d sc =
     sc\<lparr>this := (this sc)\<lparr>peers := Some (peersOf (layout sc) d),
                           heights := Some (heightsOf (layout sc))\<rparr>\<rparr>"

text \<open>The \<^verbatim>\<open>while\<close> loop that finds the insertion index.\<close>

function scan :: "real list \<Rightarrow> real \<Rightarrow> nat \<Rightarrow> nat" where
  "scan centers newCenter i =
     (if i < length centers \<and> centers ! i < newCenter then scan centers newCenter (i + 1) else i)"
  by pat_completeness auto
termination
  by (relation "measure (\<lambda>(centers, newCenter, i). length centers - i)") auto

text \<open>
  The \<^verbatim>\<open>for\<close> loop of the drag handler, from index \<open>i\<close> on, with the running \<open>y\<close>:
  the peers are stacked and the slot of the dragged node is left free at \<open>ins\<close>.
\<close>

fun packPeers ::
  "(string \<times> real) list \<Rightarrow> real \<Rightarrow> nat \<Rightarrow> nat list \<Rightarrow> nat \<Rightarrow> real \<Rightarrow> lnode list \<Rightarrow> lnode list" where
  "packPeers hs nodeHeight ins [] i y ns = ns"
| "packPeers hs nodeHeight ins (p # ps) i y ns =
     (let ya = (if i = ins then y + (nodeHeight + nodePad) else y);
          h = heightOf hs (ns ! p);
          ns1 = ns[p := (ns ! p)\<lparr>y0 := ya, y1 := ya + h\<rparr>]
      in packPeers hs nodeHeight ins ps (i + 1) (ya + (h + nodePad)) ns1)"

definition peersOr :: "element_state \<Rightarrow> nat list" where
  "peersOr e = (case peers e of None \<Rightarrow> [] | Some ps \<Rightarrow> ps)"

definition heightsOr :: "element_state \<Rightarrow> (string \<times> real) list" where
  "heightsOr e = (case heights e of None \<Rightarrow> [] | Some hs \<Rightarrow> hs)"

text \<open>\<open>height\<close> is the height of the drawing, \<open>eventY\<close> is \<^verbatim>\<open>event.y\<close>.\<close>

definition onDrag :: "real \<Rightarrow> real \<Rightarrow> nat \<Rightarrow> scene \<Rightarrow> scene" where
  "onDrag height eventY d sc =
     (let ns = layout sc;
          nodeHeight = drawnHeight (ns ! d);
          minY = 20;
          maxY = height - 20 - nodeHeight;
          newY0 = max minY (min maxY eventY);
          newCenter = newY0 + nodeHeight / 2;
          ps = peersOr (this sc);
          hs = heightsOr (this sc);
          centers = map (\<lambda>p. (y0 (ns ! p) + y1 (ns ! p)) / 2) ps;
          ins = scan centers newCenter 0;
          ns1 = packPeers hs nodeHeight ins ps 0 20 ns;
          ns2 = ns1[d := (ns1 ! d)\<lparr>y0 := newY0, y1 := newY0 + nodeHeight\<rparr>]
      in \<lparr>layout = ns2, this = (this sc)\<lparr>insertIdx := Some ins\<rparr>\<rparr>)"

text \<open>
  The array \<^verbatim>\<open>ordered\<close> of the end handler: \<^verbatim>\<open>peers.slice()\<close> with \<open>d\<close> spliced in at
  \<^verbatim>\<open>this.__insertIdx ?? 0\<close> (\<^verbatim>\<open>splice\<close> takes a start beyond the end as the end).
\<close>

definition ordered :: "nat \<Rightarrow> element_state \<Rightarrow> nat list" where
  "ordered d e =
     (let ps = peersOr e;
          ins = (case insertIdx e of None \<Rightarrow> 0 | Some i \<Rightarrow> i)
      in take ins ps @ [d] @ drop ins ps)"

text \<open>The \<^verbatim>\<open>for ... of\<close> loop of the end handler, with the running \<open>y\<close>.\<close>

fun packAll :: "(string \<times> real) list \<Rightarrow> nat list \<Rightarrow> real \<Rightarrow> lnode list \<Rightarrow> lnode list" where
  "packAll hs [] y ns = ns"
| "packAll hs (n # rest) y ns =
     (let h = heightOf hs (ns ! n);
          ns1 = ns[n := (ns ! n)\<lparr>y0 := y, y1 := y + h\<rparr>]
      in packAll hs rest (y + (h + nodePad)) ns1)"

definition onEnd :: "nat \<Rightarrow> scene \<Rightarrow> scene" where
  "onEnd d sc = sc\<lparr>layout := packAll (heightsOr (this sc)) (ordered d (this sc)) 20 (layout sc)\<rparr>"

text \<open>A whole gesture on \<open>d\<close>: start, one move for each pointer value, end.\<close>

definition gesture :: "real \<Rightarrow> nat \<Rightarrow> real list \<Rightarrow> scene \<Rightarrow> scene" where
  "gesture height d moves sc = onEnd d (fold (\<lambda>y s. onDrag height y d s) moves (onStart d sc))"

subsection \<open>Notions used to state the properties\<close>

text \<open>A row is included when both trimmed values are not empty.\<close>

definition included :: "string \<Rightarrow> string \<Rightarrow> row \<Rightarrow> bool" where
  "included a b r \<longleftrightarrow> getVal r a \<noteq> [] \<and> getVal r b \<noteq> []"

text \<open>The pair of values of a row, and the key under which the row is counted.\<close>

definition rowPair :: "string \<Rightarrow> string \<Rightarrow> row \<Rightarrow> string \<times> string" where
  "rowPair a b r = (getVal r a, getVal r b)"

definition rowKey :: "string \<Rightarrow> string \<Rightarrow> row \<Rightarrow> string" where
  "rowKey a b r = linkKey (getVal r a) (getVal r b)"

text \<open>A value without the character of the key separator.\<close>

definition barFree :: "string \<Rightarrow> bool" where
  "barFree s \<longleftrightarrow> CHR ''|'' \<notin> set s"

text \<open>The distinct elements of a list in the order in which they are first met.\<close>

primrec firstSeen :: "'a list \<Rightarrow> 'a list" where
  "firstSeen [] = []"
| "firstSeen (x # xs) = x # filter (\<lambda>y. y \<noteq> x) (firstSeen xs)"

definition addNew :: "'a \<Rightarrow> 'a list \<Rightarrow> 'a list" where
  "addNew x acc = (if x \<in> set acc then acc else acc @ [x])"

text \<open>
  The 1-based positions of the rows that satisfy \<open>P\<close>, for rows numbered from \<open>idx\<close>.
\<close>

definition positions :: "(row \<Rightarrow> bool) \<Rightarrow> nat \<Rightarrow> row list \<Rightarrow> nat list" where
  "positions P idx rows = map (\<lambda>p. fst p + 1) (filter (\<lambda>p. P (snd p)) (enumerate idx rows))"

definition refsFrom :: "string \<Rightarrow> string \<Rightarrow> nat \<Rightarrow> row list \<Rightarrow> string \<Rightarrow> nat list" where
  "refsFrom a b idx rows k = positions (\<lambda>r. included a b r \<and> rowKey a b r = k) idx rows"

text \<open>The positions of the included rows with a given pair of values.\<close>

definition pairRefs :: "string \<Rightarrow> string \<Rightarrow> row list \<Rightarrow> string \<times> string \<Rightarrow> nat list" where
  "pairRefs a b rows st = positions (\<lambda>r. included a b r \<and> rowPair a b r = st) 0 rows"

text \<open>The entry of a key: the positions of the included rows with this key, and their number.\<close>

definition entryOf :: "string \<Rightarrow> string \<Rightarrow> row list \<Rightarrow> string \<Rightarrow> entry" where
  "entryOf a b rows k = \<lparr>count = length (refsFrom a b 0 rows k), refIds = refsFrom a b 0 rows k\<rparr>"

definition addRef :: "entry option \<Rightarrow> nat \<Rightarrow> entry" where
  "addRef eo idx =
     (case eo of
        None \<Rightarrow> \<lparr>count = 1, refIds = [idx + 1]\<rparr>
      | Some e \<Rightarrow> e\<lparr>count := count e + 1, refIds := refIds e @ [idx + 1]\<rparr>)"

text \<open>The column of the node \<open>d\<close>: the positions of the nodes of its side.\<close>

definition column :: "lnode list \<Rightarrow> nat \<Rightarrow> nat set" where
  "column ns d = {i. i < length ns \<and> side (ns ! i) = side (ns ! d)}"

text \<open>A row with the two columns \<open>A\<close> and \<open>B\<close>, and a node of the layout.\<close>

definition rowAB :: "string \<Rightarrow> string \<Rightarrow> row" where
  "rowAB x y = [''A'' \<mapsto> JScalar x, ''B'' \<mapsto> JScalar y]"

definition placed :: "node \<Rightarrow> real \<Rightarrow> real \<Rightarrow> lnode" where
  "placed n a b = \<lparr>nid = nid n, name = name n, side = side n, y0 = a, y1 = b\<rparr>"

text \<open>The rows of the scenario of the specification, and what \<^verbatim>\<open>buildGraph\<close> returns for them.\<close>

definition exampleRows :: "row list" where
  "exampleRows = [rowAB ''x'' ''p'', rowAB ''x'' ''p'', rowAB ''y'' ''p'', rowAB ''x'' []]"

definition exampleResult :: build_result where
  "exampleResult =
     \<lparr>graph = \<lparr>nodes = [sourceNode ''x'', sourceNode ''y'', targetNode ''p''],
               links = [\<lparr>source = ''S:x'', target = ''T:p'', val = 2\<rparr>,
                        \<lparr>source = ''S:y'', target = ''T:p'', val = 1\<rparr>]\<rparr>,
      byLinkKey = [(''x|||p'', \<lparr>count = 2, refIds = [1, 2]\<rparr>), (''y|||p'', \<lparr>count = 1, refIds = [3]\<rparr>)],
      refCountMax = 2\<rparr>"

text \<open>Rows in which a value is both a source and a target.\<close>

definition sameValueRows :: "row list" where
  "sameValueRows = [rowAB ''x'' ''y'', rowAB ''y'' ''x'', rowAB ''x'' ''x'']"

definition sameValueResult :: build_result where
  "sameValueResult =
     \<lparr>graph = \<lparr>nodes = [sourceNode ''x'', sourceNode ''y'', targetNode ''y'', targetNode ''x''],
               links = [\<lparr>source = ''S:x'', target = ''T:y'', val = 1\<rparr>,
                        \<lparr>source = ''S:y'', target = ''T:x'', val = 1\<rparr>,
                        \<lparr>source = ''S:x'', target = ''T:x'', val = 1\<rparr>]\<rparr>,
      byLinkKey = [(''x|||y'', \<lparr>count = 1, refIds = [1]\<rparr>), (''y|||x'', \<lparr>count = 1, refIds = [2]\<rparr>),
                   (''x|||x'', \<lparr>count = 1, refIds = [3]\<rparr>)],
      refCountMax = 1\<rparr>"

text \<open>Rows whose values contain the character of the key separator.\<close>

definition collidingRows :: "row list" where
  "collidingRows = [rowAB ''a|||b'' ''c'', rowAB ''a'' ''b|||c'']"

definition barRows :: "row list" where
  "barRows = [rowAB ''a|'' ''|b'', rowAB ''a||'' ''b'']"

text \<open>
  The nodes \<open>xs\<close> are stacked from \<open>y\<close> downwards in this order, the node \<open>n\<close> with the
  height \<open>H n\<close>, with the padding between neighbours and no other gap.
\<close>

fun stacked :: "(nat \<Rightarrow> real) \<Rightarrow> lnode list \<Rightarrow> nat list \<Rightarrow> real \<Rightarrow> bool" where
  "stacked H ns [] y = True"
| "stacked H ns (n # rest) y =
     (y0 (ns ! n) = y \<and> y1 (ns ! n) = y + H n \<and> stacked H ns rest (y + (H n + nodePad)))"

text \<open>
  Layouts of the graph of \<^const>\<open>exampleRows\<close> in a drawing of height 480, whose columns
  span from 20 to 460: one that fills the left column, and one of a graph in which
  \<open>x\<close> has 212 rows and \<open>y\<close> has one, so that \<open>y\<close> is 2 high and is drawn 8 high.
\<close>

definition exampleScene :: scene where
  "exampleScene =
     \<lparr>layout = [placed (sourceNode ''x'') 20 304, placed (sourceNode ''y'') 318 460,
                placed (targetNode ''p'') 27 453],
      this = \<lparr>peers = None, heights = None, insertIdx = None\<rparr>\<rparr>"

definition skewedScene :: scene where
  "skewedScene =
     \<lparr>layout = [placed (sourceNode ''x'') 20 444, placed (sourceNode ''y'') 458 460,
                placed (targetNode ''p'') 27 453],
      this = \<lparr>peers = None, heights = None, insertIdx = None\<rparr>\<rparr>"

text \<open>
  The same layout when an earlier gesture on \<open>y\<close> has left its properties on the element.
\<close>

definition staleScene :: scene where
  "staleScene =
     skewedScene\<lparr>this := \<lparr>peers = Some [0],
                              heights = Some [(''S:x'', 424), (''S:y'', 8), (''T:p'', 426)],
                              insertIdx = Some 1\<rparr>\<rparr>"

section \<open>Properties of the graph builder\<close>

lemmas build_eval =
  buildGraph_def visitRow_def getVal_def getProp_def safeStr_def trim_def isWhiteSpace_def
  emptyBuilder_def has_def linkKey_def sourceNode_def targetNode_def linkOf_def split_def
  element_def d3_max_def orOne_def rowAB_def Let_def

subsection \<open>First-encounter order\<close>

lemma fold_addNew: "fold addNew xs acc = acc @ filter (\<lambda>y. y \<notin> set acc) (firstSeen xs)"
proof (induction xs arbitrary: acc)
  case Nil
  show ?case by simp
next
  case (Cons x xs)
  show ?case
  proof (cases "x \<in> set acc")
    case True
    have "filter (\<lambda>y. y \<notin> set acc) (filter (\<lambda>y. y \<noteq> x) (firstSeen xs)) =
          filter (\<lambda>y. y \<notin> set acc) (firstSeen xs)"
      using True by (auto intro: filter_cong)
    with True Cons show ?thesis by (simp add: addNew_def)
  next
    case False
    have "filter (\<lambda>y. y \<notin> set (acc @ [x])) (firstSeen xs) =
          filter (\<lambda>y. y \<notin> set acc) (filter (\<lambda>y. y \<noteq> x) (firstSeen xs))"
      by (auto intro: filter_cong)
    with False Cons show ?thesis by (simp add: addNew_def)
  qed
qed

lemma fold_addNew_Nil: "fold addNew xs [] = firstSeen xs"
  by (simp add: fold_addNew)

lemma set_firstSeen: "set (firstSeen xs) = set xs"
  by (induction xs) auto

lemma distinct_firstSeen: "distinct (firstSeen xs)"
  by (induction xs) (auto simp: set_firstSeen)

subsection \<open>One row\<close>

lemma visitRow_excluded: "\<not> included a b r \<Longrightarrow> visitRow a b st r idx = st"
  by (auto simp: visitRow_def included_def Let_def)

lemma visitRow_linkKeys:
  "linkKeys (visitRow a b st r idx) =
     (if included a b r
      then AList.update (rowKey a b r) (addRef (map_of (linkKeys st) (rowKey a b r)) idx) (linkKeys st)
      else linkKeys st)"
  by (auto simp: visitRow_def included_def rowKey_def addRef_def Let_def split: option.splits)

lemma visitRow_sources:
  "sources (visitRow a b st r idx) =
     (if included a b r \<and> \<not> has (sources st) (getVal r a)
      then AList.update (getVal r a) (sourceNode (getVal r a)) (sources st)
      else sources st)"
  by (auto simp: visitRow_def included_def Let_def)

lemma visitRow_targets:
  "targets (visitRow a b st r idx) =
     (if included a b r \<and> \<not> has (targets st) (getVal r b)
      then AList.update (getVal r b) (targetNode (getVal r b)) (targets st)
      else targets st)"
  by (auto simp: visitRow_def included_def Let_def)

lemma has_keyed: "has (map (\<lambda>k. (k, f k)) ks) k \<longleftrightarrow> k \<in> set ks"
  by (induction ks) (auto simp: has_def)

lemma update_keyed_new:
  "k \<notin> set ks \<Longrightarrow> AList.update k (f k) (map (\<lambda>k. (k, f k)) ks) = map (\<lambda>k. (k, f k)) (ks @ [k])"
  by (induction ks) auto

subsection \<open>The loop over the rows\<close>

lemma forEach_sources:
  "sources st = map (\<lambda>k. (k, sourceNode k)) ks \<Longrightarrow>
   sources (forEach (visitRow a b) rows idx st) =
     map (\<lambda>k. (k, sourceNode k)) (fold addNew (map (\<lambda>r. getVal r a) (filter (included a b) rows)) ks)"
proof (induction rows arbitrary: idx st ks)
  case Nil
  then show ?case by simp
next
  case (Cons r rows)
  have "sources (visitRow a b st r idx) =
          map (\<lambda>k. (k, sourceNode k)) (if included a b r then addNew (getVal r a) ks else ks)"
    using Cons.prems by (simp add: visitRow_sources has_keyed update_keyed_new addNew_def)
  from Cons.IH [OF this] show ?case by simp
qed

lemma forEach_targets:
  "targets st = map (\<lambda>k. (k, targetNode k)) ks \<Longrightarrow>
   targets (forEach (visitRow a b) rows idx st) =
     map (\<lambda>k. (k, targetNode k)) (fold addNew (map (\<lambda>r. getVal r b) (filter (included a b) rows)) ks)"
proof (induction rows arbitrary: idx st ks)
  case Nil
  then show ?case by simp
next
  case (Cons r rows)
  have "targets (visitRow a b st r idx) =
          map (\<lambda>k. (k, targetNode k)) (if included a b r then addNew (getVal r b) ks else ks)"
    using Cons.prems by (simp add: visitRow_targets has_keyed update_keyed_new addNew_def)
  from Cons.IH [OF this] show ?case by simp
qed

lemma forEach_keys:
  "map fst (linkKeys (forEach (visitRow a b) rows idx st)) =
     fold addNew (map (rowKey a b) (filter (included a b) rows)) (map fst (linkKeys st))"
proof (induction rows arbitrary: idx st)
  case Nil
  show ?case by simp
next
  case (Cons r rows)
  show ?case
    by (simp add: Cons.IH visitRow_linkKeys AList.update_keys addNew_def)
qed

lemma refsFrom_Cons:
  "refsFrom a b idx (r # rows) k =
     (if included a b r \<and> rowKey a b r = k then [idx + 1] else []) @ refsFrom a b (Suc idx) rows k"
  by (simp add: refsFrom_def positions_def)

lemma forEach_entries:
  "map_of (linkKeys (forEach (visitRow a b) rows idx st)) k =
     (let rs = refsFrom a b idx rows k
      in if rs = [] then map_of (linkKeys st) k
         else Some (case map_of (linkKeys st) k of
                      None \<Rightarrow> \<lparr>count = length rs, refIds = rs\<rparr>
                    | Some e \<Rightarrow> e\<lparr>count := count e + length rs, refIds := refIds e @ rs\<rparr>))"
proof (induction rows arbitrary: idx st)
  case Nil
  show ?case by (simp add: refsFrom_def positions_def)
next
  case (Cons r rows)
  show ?case
    by (simp add: Cons.IH refsFrom_Cons visitRow_linkKeys AList.update_conv' addRef_def Let_def
          split: option.splits)
qed

subsection \<open>The result of buildGraph\<close>

lemma refsFrom_Nil: "refsFrom a b idx [] k = []"
  by (simp add: refsFrom_def positions_def)

lemma refsFrom_empty_iff:
  "refsFrom a b idx rows k = [] \<longleftrightarrow> k \<notin> rowKey a b ` set (filter (included a b) rows)"
  by (induction rows arbitrary: idx) (auto simp: refsFrom_Cons refsFrom_Nil)

lemma alist_eqI:
  "distinct (map fst al) \<Longrightarrow> map fst al = ks \<Longrightarrow> (\<And>k. k \<in> set ks \<Longrightarrow> map_of al k = Some (f k)) \<Longrightarrow>
   al = map (\<lambda>k. (k, f k)) ks"
proof (induction al arbitrary: ks)
  case Nil
  then show ?case by simp
next
  case (Cons p al)
  obtain k v where p: "p = (k, v)" by (cases p)
  obtain ks' where ks: "ks = k # ks'" and ks': "map fst al = ks'"
    using Cons.prems(2) p by auto
  have v: "v = f k" using Cons.prems(3) [of k] p ks by simp
  have "al = map (\<lambda>k. (k, f k)) ks'"
  proof (rule Cons.IH)
    show "distinct (map fst al)" using Cons.prems(1) by simp
    show "map fst al = ks'" by (rule ks')
    fix k' assume k': "k' \<in> set ks'"
    then have "k' \<noteq> k" using Cons.prems(1) p ks' by auto
    then show "map_of al k' = Some (f k')"
      using Cons.prems(3) [of k'] k' p ks by simp
  qed
  with p ks v show ?case by simp
qed

lemma linkKeys_closed:
  "linkKeys (forEach (visitRow a b) rows 0 emptyBuilder) =
     map (\<lambda>k. (k, entryOf a b rows k)) (firstSeen (map (rowKey a b) (filter (included a b) rows)))"
proof (rule alist_eqI)
  have keys: "map fst (linkKeys (forEach (visitRow a b) rows 0 emptyBuilder)) =
      firstSeen (map (rowKey a b) (filter (included a b) rows))"
    by (simp add: forEach_keys emptyBuilder_def fold_addNew_Nil)
  show "distinct (map fst (linkKeys (forEach (visitRow a b) rows 0 emptyBuilder)))"
    by (simp add: keys distinct_firstSeen)
  show "map fst (linkKeys (forEach (visitRow a b) rows 0 emptyBuilder)) =
      firstSeen (map (rowKey a b) (filter (included a b) rows))"
    by (rule keys)
  fix k assume "k \<in> set (firstSeen (map (rowKey a b) (filter (included a b) rows)))"
  then have "refsFrom a b 0 rows k \<noteq> []"
    by (simp add: set_firstSeen refsFrom_empty_iff)
  then show "map_of (linkKeys (forEach (visitRow a b) rows 0 emptyBuilder)) k = Some (entryOf a b rows k)"
    by (simp add: forEach_entries emptyBuilder_def entryOf_def Let_def)
qed

lemma sources_closed:
  "sources (forEach (visitRow a b) rows 0 emptyBuilder) =
     map (\<lambda>k. (k, sourceNode k)) (firstSeen (map (\<lambda>r. getVal r a) (filter (included a b) rows)))"
  using forEach_sources [of emptyBuilder "[]" a b rows 0]
  by (simp add: emptyBuilder_def fold_addNew_Nil)

lemma targets_closed:
  "targets (forEach (visitRow a b) rows 0 emptyBuilder) =
     map (\<lambda>k. (k, targetNode k)) (firstSeen (map (\<lambda>r. getVal r b) (filter (included a b) rows)))"
  using forEach_targets [of emptyBuilder "[]" a b rows 0]
  by (simp add: emptyBuilder_def fold_addNew_Nil)

lemma buildGraph_closed:
  "buildGraph d3g rows a b =
     (if \<not> d3g then Inl TypeError
      else
        let es = map (\<lambda>k. (k, entryOf a b rows k))
                   (firstSeen (map (rowKey a b) (filter (included a b) rows)));
            ls = map linkOf es
        in Inr \<lparr>graph =
                  \<lparr>nodes = map sourceNode (firstSeen (map (\<lambda>r. getVal r a) (filter (included a b) rows))) @
                           map targetNode (firstSeen (map (\<lambda>r. getVal r b) (filter (included a b) rows))),
                   links = ls\<rparr>,
                byLinkKey = es,
                refCountMax = orOne (d3_max (map val ls))\<rparr>)"
  by (simp add: buildGraph_def Let_def linkKeys_closed sources_closed targets_closed comp_def)

subsection \<open>Positions of rows\<close>

lemma positions_mem:
  "n \<in> set (positions P idx rows) \<longleftrightarrow> (\<exists>j < length rows. n = idx + j + 1 \<and> P (rows ! j))"
proof
  assume "n \<in> set (positions P idx rows)"
  then obtain p where p: "p \<in> set (enumerate idx rows)" "P (snd p)" "n = fst p + 1"
    by (auto simp: positions_def)
  then have "fst p - idx < length rows" "n = idx + (fst p - idx) + 1" "P (rows ! (fst p - idx))"
    by (auto simp: in_set_enumerate_eq)
  then show "\<exists>j < length rows. n = idx + j + 1 \<and> P (rows ! j)" by blast
next
  assume "\<exists>j < length rows. n = idx + j + 1 \<and> P (rows ! j)"
  then obtain j where j: "j < length rows" "n = idx + j + 1" "P (rows ! j)" by blast
  then have "(idx + j, rows ! j) \<in> set (enumerate idx rows)"
    by (simp add: in_set_enumerate_eq)
  with j show "n \<in> set (positions P idx rows)"
    by (force simp: positions_def)
qed

lemma positions_Cons:
  "positions P idx (r # rows) = (if P r then [idx + 1] else []) @ positions P (Suc idx) rows"
  by (simp add: positions_def)

lemma positions_increasing: "sorted_wrt (<) (positions P idx rows)"
proof (induction rows arbitrary: idx)
  case Nil
  show ?case by (simp add: positions_def)
next
  case (Cons r rows)
  have "\<forall>n \<in> set (positions P (Suc idx) rows). idx + 1 < n"
    by (auto simp: positions_mem)
  with Cons [of "Suc idx"] show ?case by (simp add: positions_Cons)
qed

lemma forEach_replace_excluded:
  "i < length rows \<Longrightarrow> \<not> included a b (rows ! i) \<Longrightarrow> \<not> included a b r \<Longrightarrow>
   forEach (visitRow a b) (rows[i := r]) idx st = forEach (visitRow a b) rows idx st"
proof (induction rows arbitrary: i idx st)
  case Nil
  then show ?case by simp
next
  case (Cons x rows)
  show ?case
  proof (cases i)
    case 0
    with Cons.prems show ?thesis by (simp add: visitRow_excluded)
  next
    case (Suc j)
    with Cons.prems Cons.IH [of j] show ?thesis by simp
  qed
qed

lemma not_included_empty: "\<not> included a b Map.empty"
  by (simp add: included_def getVal_def getProp_def safeStr_def)

lemma example_build: "buildGraph True exampleRows ''A'' ''B'' = Inr exampleResult"
  by (simp add: exampleRows_def exampleResult_def build_eval)

subsection \<open>Excluded rows\<close>

text \<open>
  C1. A row whose trimmed value in the source column or in the target column is empty
  contributes nothing to the graph: the callback leaves the three maps as they are (no
  node is created, no link is created or incremented), the 1-based position of the row
  is in no list of reference ids, and the result is the one obtained with an empty
  object in place of the row.
\<close>

theorem row_exclusion:
  assumes "i < length rows"
    and "getVal (rows ! i) sourceCol = [] \<or> getVal (rows ! i) targetCol = []"
    and "buildGraph d3g rows sourceCol targetCol = Inr res"
  shows "visitRow sourceCol targetCol st (rows ! i) i = st
       \<and> (\<forall>ke \<in> set (byLinkKey res). i + 1 \<notin> set (refIds (snd ke)))
       \<and> buildGraph d3g (rows[i := Map.empty]) sourceCol targetCol = Inr res"
proof -
  have excl: "\<not> included sourceCol targetCol (rows ! i)"
    using assms(2) by (auto simp: included_def)
  have 1: "visitRow sourceCol targetCol st (rows ! i) i = st"
    using excl by (rule visitRow_excluded)
  have d3: "d3g" using assms(3) by (auto simp: buildGraph_def Let_def split: if_splits)
  have keys: "byLinkKey res = map (\<lambda>k. (k, entryOf sourceCol targetCol rows k))
      (firstSeen (map (rowKey sourceCol targetCol) (filter (included sourceCol targetCol) rows)))"
    using assms(3) d3 by (auto simp: buildGraph_closed Let_def)
  have 2: "\<forall>ke \<in> set (byLinkKey res). i + 1 \<notin> set (refIds (snd ke))"
  proof
    fix ke assume "ke \<in> set (byLinkKey res)"
    then obtain k where "snd ke = entryOf sourceCol targetCol rows k"
      by (auto simp: keys)
    then have refs: "refIds (snd ke) = refsFrom sourceCol targetCol 0 rows k"
      by (simp add: entryOf_def)
    show "i + 1 \<notin> set (refIds (snd ke))"
      using excl by (auto simp: refs refsFrom_def positions_mem)
  qed
  have 3: "buildGraph d3g (rows[i := Map.empty]) sourceCol targetCol = Inr res"
    using assms(1,3) excl
    by (simp add: buildGraph_def forEach_replace_excluded not_included_empty)
  from 1 2 3 show ?thesis by blast
qed

theorem row_exclusion_witness:
  "3 < length exampleRows
   \<and> (getVal (exampleRows ! 3) ''A'' = [] \<or> getVal (exampleRows ! 3) ''B'' = [])
   \<and> buildGraph True exampleRows ''A'' ''B'' = Inr exampleResult
   \<and> visitRow ''A'' ''B'' emptyBuilder (exampleRows ! 3) 3 = emptyBuilder
   \<and> list_all (\<lambda>ke. 3 + 1 \<notin> set (refIds (snd ke))) (byLinkKey exampleResult)
   \<and> buildGraph True (exampleRows[3 := Map.empty]) ''A'' ''B'' = Inr exampleResult"
proof -
  have h1: "3 < length exampleRows" by (simp add: exampleRows_def)
  have h2: "getVal (exampleRows ! 3) ''A'' = [] \<or> getVal (exampleRows ! 3) ''B'' = []"
    by (simp add: exampleRows_def build_eval)
  show ?thesis
    using h1 h2 example_build row_exclusion [OF h1 h2 example_build, of emptyBuilder]
    by (simp add: list_all_iff)
qed

subsection \<open>Order of the nodes and of the links\<close>

lemma refsFrom_bound: "n \<in> set (refsFrom a b idx rows k) \<Longrightarrow> idx < n"
  by (auto simp: refsFrom_def positions_mem)

lemma first_refs_sorted:
  "sorted_wrt (<) (map (\<lambda>k. hd (refsFrom a b idx rows k))
     (firstSeen (map (rowKey a b) (filter (included a b) rows))))"
proof (induction rows arbitrary: idx)
  case Nil
  show ?case by simp
next
  case (Cons r rows)
  let ?ks = "firstSeen (map (rowKey a b) (filter (included a b) rows))"
  let ?g = "\<lambda>k. hd (refsFrom a b (Suc idx) rows k)"
  show ?case
  proof (cases "included a b r")
    case False
    with Cons [of "Suc idx"] show ?thesis by (simp add: refsFrom_Cons)
  next
    case True
    have later: "idx + 1 < ?g k" if "k \<in> set ?ks" for k
    proof -
      from that have "refsFrom a b (Suc idx) rows k \<noteq> []"
        by (simp add: set_firstSeen refsFrom_empty_iff)
      then have "?g k \<in> set (refsFrom a b (Suc idx) rows k)" by simp
      from refsFrom_bound [OF this] show ?thesis by simp
    qed
    have "sorted_wrt (\<lambda>x y. ?g x < ?g y) ?ks"
      using Cons [of "Suc idx"] by (simp add: sorted_wrt_map)
    then have "sorted_wrt (\<lambda>x y. ?g x < ?g y) (filter (\<lambda>y. y \<noteq> rowKey a b r) ?ks)"
      by (rule sorted_wrt_filter)
    then have sorted: "sorted_wrt (<) (map ?g (filter (\<lambda>y. y \<noteq> rowKey a b r) ?ks))"
      by (simp add: sorted_wrt_map)
    have same: "map (\<lambda>k. hd (refsFrom a b idx (r # rows) k)) (filter (\<lambda>y. y \<noteq> rowKey a b r) ?ks) =
                map ?g (filter (\<lambda>y. y \<noteq> rowKey a b r) ?ks)"
      by (rule map_cong) (auto simp: refsFrom_Cons)
    have first: "hd (refsFrom a b idx (r # rows) (rowKey a b r)) = idx + 1"
      using True by (simp add: refsFrom_Cons)
    have "\<forall>x \<in> set (map ?g (filter (\<lambda>y. y \<noteq> rowKey a b r) ?ks)). idx + 1 < x"
      using later by auto
    then show ?thesis
      using True sorted by (simp add: same first)
  qed
qed

text \<open>
  C4. The result of \<^verbatim>\<open>buildGraph\<close> is a function of the rows and of the two columns,
  so two calls with the same arguments give the same graph, and its order is fixed: the
  nodes are the source nodes in the order in which their values are first met among the
  included rows, then the target nodes in the order in which theirs are; the keys of
  \<^verbatim>\<open>byLinkKey\<close> are the keys \<^verbatim>\<open>s|||t\<close> of the included rows in the order in which
  they are first met, each with the number and the positions of its rows; the links
  follow that order, one for each key, and the first reference ids of successive links
  increase.
\<close>

theorem build_order:
  assumes "buildGraph d3g rows sourceCol targetCol = Inr res"
  shows "nodes (graph res) =
           map sourceNode (firstSeen (map (\<lambda>r. getVal r sourceCol) (filter (included sourceCol targetCol) rows))) @
           map targetNode (firstSeen (map (\<lambda>r. getVal r targetCol) (filter (included sourceCol targetCol) rows)))
       \<and> map fst (byLinkKey res) =
           firstSeen (map (rowKey sourceCol targetCol) (filter (included sourceCol targetCol) rows))
       \<and> map snd (byLinkKey res) = map (entryOf sourceCol targetCol rows) (map fst (byLinkKey res))
       \<and> links (graph res) = map linkOf (byLinkKey res)
       \<and> sorted_wrt (<) (map (\<lambda>ke. hd (refIds (snd ke))) (byLinkKey res))"
proof -
  have d3: "d3g" using assms by (auto simp: buildGraph_def Let_def split: if_splits)
  have "sorted_wrt (<) (map (\<lambda>ke. hd (refIds (snd ke))) (byLinkKey res))"
    using assms d3 first_refs_sorted [of sourceCol targetCol 0 rows]
    by (auto simp: buildGraph_closed Let_def comp_def entryOf_def)
  then show ?thesis
    using assms d3 by (auto simp: buildGraph_closed Let_def comp_def)
qed

theorem build_order_witness:
  "buildGraph True exampleRows ''A'' ''B'' = Inr exampleResult
   \<and> map nid (nodes (graph exampleResult)) = [''S:x'', ''S:y'', ''T:p'']
   \<and> map fst (byLinkKey exampleResult) =
       firstSeen (map (rowKey ''A'' ''B'') (filter (included ''A'' ''B'') exampleRows))
   \<and> map fst (byLinkKey exampleResult) = [''x|||p'', ''y|||p'']
   \<and> links (graph exampleResult) = map linkOf (byLinkKey exampleResult)
   \<and> sorted_wrt (<) (map (\<lambda>ke. hd (refIds (snd ke))) (byLinkKey exampleResult))"
proof -
  have ids: "map nid (nodes (graph exampleResult)) = [''S:x'', ''S:y'', ''T:p'']"
    by (simp add: exampleResult_def sourceNode_def targetNode_def)
  have keys: "map fst (byLinkKey exampleResult) = [''x|||p'', ''y|||p'']"
    by (simp add: exampleResult_def)
  from build_order [OF example_build]
  have "map fst (byLinkKey exampleResult) =
          firstSeen (map (rowKey ''A'' ''B'') (filter (included ''A'' ''B'') exampleRows))"
    and "links (graph exampleResult) = map linkOf (byLinkKey exampleResult)"
    and "sorted_wrt (<) (map (\<lambda>ke. hd (refIds (snd ke))) (byLinkKey exampleResult))"
    by blast+
  with example_build ids keys show ?thesis by simp
qed

subsection \<open>Identity of the nodes\<close>

lemma nid_sourceNode: "nid (sourceNode s) = ''S:'' @ s"
  by (simp add: sourceNode_def)

lemma nid_targetNode: "nid (targetNode t) = ''T:'' @ t"
  by (simp add: targetNode_def)

lemma distinct_sides:
  "distinct xs \<Longrightarrow> distinct ys \<Longrightarrow>
   distinct (map nid (map sourceNode xs @ map targetNode ys)) \<and>
   distinct (map (\<lambda>n. (side n, name n)) (map sourceNode xs @ map targetNode ys))"
  by (auto simp: distinct_map inj_on_def sourceNode_def targetNode_def)

text \<open>
  C5. In every graph that \<^verbatim>\<open>buildGraph\<close> returns, no two nodes have the same side and
  value and no two nodes have the same id; the id of a node is its value with the prefix
  of its side, \<^verbatim>\<open>S:\<close> or \<^verbatim>\<open>T:\<close>; every included row has its source node and its
  target node in the graph; and the source node and the target node of one value are two
  nodes with two ids.
\<close>

theorem node_identity:
  assumes "buildGraph d3g rows sourceCol targetCol = Inr res"
  shows "distinct (map (\<lambda>n. (side n, name n)) (nodes (graph res)))
       \<and> distinct (map nid (nodes (graph res)))
       \<and> (\<forall>n \<in> set (nodes (graph res)).
            nid n = (case side n of Left \<Rightarrow> ''S:'' | Right \<Rightarrow> ''T:'') @ name n)
       \<and> (\<forall>r \<in> set rows. included sourceCol targetCol r \<longrightarrow>
            sourceNode (getVal r sourceCol) \<in> set (nodes (graph res)) \<and>
            targetNode (getVal r targetCol) \<in> set (nodes (graph res)))
       \<and> (\<forall>v. sourceNode v \<noteq> targetNode v \<and> nid (sourceNode v) \<noteq> nid (targetNode v))"
proof -
  let ?xs = "firstSeen (map (\<lambda>r. getVal r sourceCol) (filter (included sourceCol targetCol) rows))"
  let ?ys = "firstSeen (map (\<lambda>r. getVal r targetCol) (filter (included sourceCol targetCol) rows))"
  have d3: "d3g" using assms by (auto simp: buildGraph_def Let_def split: if_splits)
  have ns: "nodes (graph res) = map sourceNode ?xs @ map targetNode ?ys"
    using assms d3 by (auto simp: buildGraph_closed Let_def)
  have 1: "distinct (map (\<lambda>n. (side n, name n)) (nodes (graph res)))"
    and 2: "distinct (map nid (nodes (graph res)))"
    using distinct_sides [of ?xs ?ys] by (simp_all add: ns distinct_firstSeen)
  have 3: "\<forall>n \<in> set (nodes (graph res)).
            nid n = (case side n of Left \<Rightarrow> ''S:'' | Right \<Rightarrow> ''T:'') @ name n"
    by (auto simp: ns sourceNode_def targetNode_def)
  have 4: "\<forall>r \<in> set rows. included sourceCol targetCol r \<longrightarrow>
            sourceNode (getVal r sourceCol) \<in> set (nodes (graph res)) \<and>
            targetNode (getVal r targetCol) \<in> set (nodes (graph res))"
    by (auto simp: ns set_firstSeen)
  have 5: "\<forall>v. sourceNode v \<noteq> targetNode v \<and> nid (sourceNode v) \<noteq> nid (targetNode v)"
    by (simp add: sourceNode_def targetNode_def)
  from 1 2 3 4 5 show ?thesis by blast
qed

lemma sameValue_build: "buildGraph True sameValueRows ''A'' ''B'' = Inr sameValueResult"
  by (simp add: sameValueRows_def sameValueResult_def build_eval)

theorem node_identity_witness:
  "buildGraph True sameValueRows ''A'' ''B'' = Inr sameValueResult
   \<and> map nid (nodes (graph sameValueResult)) = [''S:x'', ''S:y'', ''T:y'', ''T:x'']
   \<and> distinct (map nid (nodes (graph sameValueResult)))
   \<and> distinct (map (\<lambda>n. (side n, name n)) (nodes (graph sameValueResult)))
   \<and> sourceNode ''x'' \<in> set (nodes (graph sameValueResult))
   \<and> targetNode ''x'' \<in> set (nodes (graph sameValueResult))"
proof -
  have r: "rowAB ''x'' ''x'' \<in> set sameValueRows" by (simp add: sameValueRows_def)
  have i: "included ''A'' ''B'' (rowAB ''x'' ''x'')" by (simp add: included_def build_eval)
  have v: "getVal (rowAB ''x'' ''x'') ''A'' = ''x''" "getVal (rowAB ''x'' ''x'') ''B'' = ''x''"
    by (simp_all add: build_eval)
  from node_identity [OF sameValue_build] r i
  have "distinct (map nid (nodes (graph sameValueResult)))"
    "distinct (map (\<lambda>n. (side n, name n)) (nodes (graph sameValueResult)))"
    "sourceNode (getVal (rowAB ''x'' ''x'') ''A'') \<in> set (nodes (graph sameValueResult))"
    "targetNode (getVal (rowAB ''x'' ''x'') ''B'') \<in> set (nodes (graph sameValueResult))"
    by blast+
  then show ?thesis
    using sameValue_build by (simp add: v) (simp add: sameValueResult_def sourceNode_def targetNode_def)
qed

subsection \<open>Values that contain the separator of the key\<close>

text \<open>For all rows, the entries are those of the keys.\<close>

lemma aggregation_by_key:
  assumes "buildGraph d3g rows a b = Inr res" and "ke \<in> set (byLinkKey res)"
  shows "count (snd ke) = length (refIds (snd ke))"
    and "refIds (snd ke) = positions (\<lambda>r. included a b r \<and> rowKey a b r = fst ke) 0 rows"
    and "sorted_wrt (<) (refIds (snd ke))"
    and "refIds (snd ke) \<noteq> []"
proof -
  have d3: "d3g" using assms(1) by (auto simp: buildGraph_def Let_def split: if_splits)
  have "byLinkKey res = map (\<lambda>k. (k, entryOf a b rows k))
      (firstSeen (map (rowKey a b) (filter (included a b) rows)))"
    using assms(1) d3 by (auto simp: buildGraph_closed Let_def)
  with assms(2) have ke: "snd ke = entryOf a b rows (fst ke)"
    and k: "fst ke \<in> rowKey a b ` set (filter (included a b) rows)"
    by (auto simp: set_firstSeen)
  show "count (snd ke) = length (refIds (snd ke))" by (simp add: ke entryOf_def)
  show refs: "refIds (snd ke) = positions (\<lambda>r. included a b r \<and> rowKey a b r = fst ke) 0 rows"
    by (simp add: ke entryOf_def refsFrom_def)
  show "sorted_wrt (<) (refIds (snd ke))" unfolding refs by (rule positions_increasing)
  show "refIds (snd ke) \<noteq> []"
    using k refsFrom_empty_iff [of a b 0 rows "fst ke"] by (simp add: ke entryOf_def)
qed

lemma first_occurrence_unique:
  "x \<notin> set xs \<Longrightarrow> x \<notin> set xs' \<Longrightarrow> xs @ x # ys = xs' @ x # ys' \<Longrightarrow> xs = xs' \<and> ys = ys'"
proof (induction xs arbitrary: xs')
  case Nil
  then show ?case by (cases xs') auto
next
  case (Cons c xs)
  then show ?case by (cases xs') auto
qed

lemma linkKey_inj:
  assumes "barFree s" and "barFree s'"
  shows "linkKey s t = linkKey s' t' \<longleftrightarrow> s = s' \<and> t = t'"
proof
  note free = assms
  assume eq: "linkKey s t = linkKey s' t'"
  from eq have "s @ CHR ''|'' # (''||'' @ t) = s' @ CHR ''|'' # (''||'' @ t')"
    by (simp add: linkKey_def)
  with free have "s = s' \<and> ''||'' @ t = ''||'' @ t'"
    unfolding barFree_def by (intro first_occurrence_unique)
  then show "s = s' \<and> t = t'" by simp
qed simp

lemma splitFrom_barFree: "barFree t \<Longrightarrow> splitFrom ''|||'' cur t = [cur @ t]"
  by (induction t arbitrary: cur) (auto simp: barFree_def)

lemma splitFrom_linkKey:
  "barFree s \<Longrightarrow> barFree t \<Longrightarrow> splitFrom ''|||'' cur (linkKey s t) = [cur @ s, t]"
proof (induction s arbitrary: cur)
  case Nil
  then show ?case by (simp add: linkKey_def splitFrom_barFree)
next
  case (Cons c s)
  then have "c \<noteq> CHR ''|''" "barFree s" by (auto simp: barFree_def)
  with Cons.IH [of "cur @ [c]"] Cons.prems(2) show ?case by (simp add: linkKey_def)
qed

lemma linkOf_barFree:
  "barFree s \<Longrightarrow> barFree t \<Longrightarrow>
   linkOf (linkKey s t, e) = \<lparr>source = ''S:'' @ s, target = ''T:'' @ t, val = count e\<rparr>"
  by (simp add: linkOf_def split_def splitFrom_linkKey element_def)

lemma firstSeen_map_inj:
  "inj_on f (set xs) \<Longrightarrow> firstSeen (map f xs) = map f (firstSeen xs)"
proof (induction xs)
  case Nil
  show ?case by simp
next
  case (Cons x xs)
  have "filter (\<lambda>y. y \<noteq> f x) (map f (firstSeen xs)) = map f (filter (\<lambda>y. y \<noteq> x) (firstSeen xs))"
    unfolding filter_map
    by (rule arg_cong [where f = "map f"], rule filter_cong)
       (use Cons.prems in \<open>auto simp: set_firstSeen inj_on_def\<close>)
  moreover have "firstSeen (map f xs) = map f (firstSeen xs)"
    using Cons.prems by (intro Cons.IH) (auto simp: inj_on_def)
  ultimately show ?case by simp
qed

lemma positions_cong:
  "(\<And>r. r \<in> set rows \<Longrightarrow> P r = Q r) \<Longrightarrow> positions P idx rows = positions Q idx rows"
  unfolding positions_def
  by (rule arg_cong [where f = "map (\<lambda>p. fst p + 1)"], rule filter_cong)
     (auto simp: in_set_enumerate_eq)

text \<open>
  When no value of an included row contains the character \<open>|\<close>, the entries and the
  links are those of the distinct pairs of values, in the order in which the pairs are
  first met, and both ends of every link are ids of nodes.
\<close>

lemma pairs_without_bars:
  assumes bars: "\<And>r. r \<in> set rows \<Longrightarrow> included a b r \<Longrightarrow> barFree (getVal r a) \<and> barFree (getVal r b)"
    and res: "buildGraph d3g rows a b = Inr res"
  defines "pairs \<equiv> firstSeen (map (rowPair a b) (filter (included a b) rows))"
  shows "byLinkKey res =
           map (\<lambda>st. (linkKey (fst st) (snd st),
                  \<lparr>count = length (pairRefs a b rows st), refIds = pairRefs a b rows st\<rparr>)) pairs"
    and "links (graph res) =
           map (\<lambda>st. \<lparr>source = nid (sourceNode (fst st)), target = nid (targetNode (snd st)),
                  val = length (pairRefs a b rows st)\<rparr>) pairs"
    and "distinct (map fst (byLinkKey res))"
    and "\<forall>l \<in> set (links (graph res)).
           source l \<in> nid ` set (nodes (graph res)) \<and> target l \<in> nid ` set (nodes (graph res))"
proof -
  let ?inc = "filter (included a b) rows"
  let ?key = "\<lambda>st. linkKey (fst st) (snd st)"
  have d3: "d3g" using res by (auto simp: buildGraph_def Let_def split: if_splits)
  have free: "barFree (fst st) \<and> barFree (snd st)" if "st \<in> rowPair a b ` set ?inc" for st
    using that bars by (auto simp: rowPair_def)
  have inj: "inj_on ?key (rowPair a b ` set ?inc)"
    by (rule inj_onI) (metis free linkKey_inj prod.expand)
  have key: "rowKey a b = ?key \<circ> rowPair a b"
    by (auto simp: rowKey_def rowPair_def)
  have keys: "firstSeen (map (rowKey a b) ?inc) = map ?key pairs"
    unfolding key pairs_def using inj
    by (simp add: firstSeen_map_inj flip: map_map)
  have refs: "refsFrom a b 0 rows (?key st) = pairRefs a b rows st" if "st \<in> set pairs" for st
    unfolding refsFrom_def pairRefs_def
  proof (rule positions_cong)
    fix r assume r: "r \<in> set rows"
    from that have st: "st \<in> rowPair a b ` set ?inc" by (simp add: pairs_def set_firstSeen)
    show "(included a b r \<and> rowKey a b r = ?key st) = (included a b r \<and> rowPair a b r = st)"
    proof (cases "included a b r")
      case True
      with r have "rowPair a b r \<in> rowPair a b ` set ?inc" by simp
      with inj st have "?key (rowPair a b r) = ?key st \<longleftrightarrow> rowPair a b r = st"
        by (auto dest: inj_onD)
      then show ?thesis by (simp add: key)
    qed simp
  qed
  have bl: "byLinkKey res = map (\<lambda>k. (k, entryOf a b rows k)) (map ?key pairs)"
    using res d3 by (auto simp: buildGraph_closed Let_def keys)
  show 1: "byLinkKey res =
           map (\<lambda>st. (linkKey (fst st) (snd st),
                  \<lparr>count = length (pairRefs a b rows st), refIds = pairRefs a b rows st\<rparr>)) pairs"
    unfolding bl map_map by (rule map_cong) (simp_all add: entryOf_def refs)
  have ls: "links (graph res) = map linkOf (byLinkKey res)"
    using res d3 by (auto simp: buildGraph_closed Let_def)
  show 2: "links (graph res) =
           map (\<lambda>st. \<lparr>source = nid (sourceNode (fst st)), target = nid (targetNode (snd st)),
                  val = length (pairRefs a b rows st)\<rparr>) pairs"
    unfolding ls 1 map_map
  proof (rule map_cong)
    fix st assume "st \<in> set pairs"
    then have "barFree (fst st) \<and> barFree (snd st)"
      using free by (simp add: pairs_def set_firstSeen)
    then show "(linkOf \<circ> (\<lambda>st. (linkKey (fst st) (snd st),
                  \<lparr>count = length (pairRefs a b rows st), refIds = pairRefs a b rows st\<rparr>))) st =
          \<lparr>source = nid (sourceNode (fst st)), target = nid (targetNode (snd st)),
                  val = length (pairRefs a b rows st)\<rparr>"
      by (simp add: linkOf_barFree sourceNode_def targetNode_def)
  qed simp
  show "distinct (map fst (byLinkKey res))"
    using res d3 by (auto simp: buildGraph_closed Let_def comp_def distinct_firstSeen)
  have ns: "nodes (graph res) =
      map sourceNode (firstSeen (map (\<lambda>r. getVal r a) ?inc)) @
      map targetNode (firstSeen (map (\<lambda>r. getVal r b) ?inc))"
    using res d3 by (auto simp: buildGraph_closed Let_def)
  show "\<forall>l \<in> set (links (graph res)).
           source l \<in> nid ` set (nodes (graph res)) \<and> target l \<in> nid ` set (nodes (graph res))"
    unfolding 2 ns by (auto simp: pairs_def set_firstSeen rowPair_def image_Un image_image)
qed

lemmas positions_eval = positions_def included_def rowPair_def enumerate_eq_zip

text \<open>
  C2. The claim that the reference ids of a link are exactly the positions of the included
  rows with the pair of values of that link fails on \<^const>\<open>collidingRows\<close>: the pairs
  \<^verbatim>\<open>(a|||b, c)\<close> of row 1 and \<^verbatim>\<open>(a, b|||c)\<close> of row 2 differ and have the same key
  \<^verbatim>\<open>a|||b|||c\<close>, so \<^verbatim>\<open>buildGraph\<close> returns one entry with count 2 and the reference
  ids 1 and 2, and one link from \<^verbatim>\<open>S:a\<close> to \<^verbatim>\<open>T:b\<close>; the first pair is that of
  row 1 only, the second that of row 2 only, and no row has the pair \<^verbatim>\<open>(a, b)\<close>.
\<close>

theorem colliding_keys_merge_references:
  "buildGraph True collidingRows ''A'' ''B'' =
     Inr \<lparr>graph = \<lparr>nodes = [sourceNode ''a|||b'', sourceNode ''a'', targetNode ''c'', targetNode ''b|||c''],
                    links = [\<lparr>source = ''S:a'', target = ''T:b'', val = 2\<rparr>]\<rparr>,
          byLinkKey = [(''a|||b|||c'', \<lparr>count = 2, refIds = [1, 2]\<rparr>)],
          refCountMax = 2\<rparr>
   \<and> positions (\<lambda>r. included ''A'' ''B'' r \<and> rowPair ''A'' ''B'' r = (''a|||b'', ''c'')) 0 collidingRows = [1]
   \<and> positions (\<lambda>r. included ''A'' ''B'' r \<and> rowPair ''A'' ''B'' r = (''a'', ''b|||c'')) 0 collidingRows = [2]
   \<and> positions (\<lambda>r. included ''A'' ''B'' r \<and> rowPair ''A'' ''B'' r = (''a'', ''b'')) 0 collidingRows = []"
  by (simp add: collidingRows_def build_eval positions_eval)

text \<open>
  C3. The claim that the links correspond one to one to the distinct pairs of values of
  the included rows, with both ends among the ids of the nodes, fails on
  \<^const>\<open>barRows\<close>: the two rows have the distinct pairs \<^verbatim>\<open>(a|, |b)\<close> and
  \<^verbatim>\<open>(a||, b)\<close> and the same key, so \<^verbatim>\<open>buildGraph\<close> returns a single link; splitting
  the key gives the ends \<^verbatim>\<open>S:a\<close> and \<^verbatim>\<open>T:||b\<close>, and neither is the id of a node.
\<close>

theorem bars_break_links:
  "buildGraph True barRows ''A'' ''B'' =
     Inr \<lparr>graph = \<lparr>nodes = [sourceNode ''a|'', sourceNode ''a||'', targetNode ''|b'', targetNode ''b''],
                    links = [\<lparr>source = ''S:a'', target = ''T:||b'', val = 2\<rparr>]\<rparr>,
          byLinkKey = [(''a|||||b'', \<lparr>count = 2, refIds = [1, 2]\<rparr>)],
          refCountMax = 2\<rparr>
   \<and> map (rowPair ''A'' ''B'') (filter (included ''A'' ''B'') barRows) = [(''a|'', ''|b''), (''a||'', ''b'')]
   \<and> ''S:a'' \<notin> set (map nid [sourceNode ''a|'', sourceNode ''a||'', targetNode ''|b'', targetNode ''b''])
   \<and> ''T:||b'' \<notin> set (map nid [sourceNode ''a|'', sourceNode ''a||'', targetNode ''|b'', targetNode ''b''])"
  by (simp add: barRows_def build_eval positions_eval)

subsection \<open>Nothing to draw\<close>

lemma build_succeeds: "d3g \<Longrightarrow> \<exists>res. buildGraph d3g rows a b = Inr res"
  by (simp add: buildGraph_def Let_def)

lemma firstSeen_Nil_iff: "firstSeen xs = [] \<longleftrightarrow> xs = []"
  by (cases xs) simp_all

lemma no_included_rows:
  assumes "buildGraph d3g rows a b = Inr res"
  shows "links (graph res) = [] \<longleftrightarrow> (\<forall>r \<in> set rows. \<not> included a b r)"
    and "(\<forall>r \<in> set rows. \<not> included a b r) \<Longrightarrow> nodes (graph res) = []"
proof -
  have d3: "d3g" using assms by (auto simp: buildGraph_def Let_def split: if_splits)
  show "links (graph res) = [] \<longleftrightarrow> (\<forall>r \<in> set rows. \<not> included a b r)"
    using assms d3 by (auto simp: buildGraph_closed Let_def firstSeen_Nil_iff filter_empty_conv)
  show "nodes (graph res) = []" if "\<forall>r \<in> set rows. \<not> included a b r"
  proof -
    from that have "filter (included a b) rows = []" by (simp add: filter_empty_conv)
    then show ?thesis using assms d3 by (auto simp: buildGraph_closed Let_def)
  qed
qed

text \<open>
  When the source or the target column is not set, \<^verbatim>\<open>renderSankey\<close> writes the
  placeholder that asks for the columns and returns, for every list of rows, and builds no
  graph. When D3 is loaded, both columns are set and no row is included (no rows at all
  is such a case), \<^verbatim>\<open>buildGraph\<close> returns a graph with no node and no link and
  \<^verbatim>\<open>renderSankey\<close> writes the placeholder for no connection and returns. When D3 is
  loaded, \<^verbatim>\<open>buildGraph\<close> returns a result for all rows and columns.
\<close>

lemma nothing_to_draw:
  "(unset sc \<or> unset tc \<longrightarrow>
      renderSankey d3g containerEl rows \<lparr>cfg_sourceCol = sc, cfg_targetCol = tc, cfg_showRefNums = rn\<rparr> =
        Inr (InnerHTML (placeholder ''Select source and target columns to render.'')))
   \<and> (d3g \<and> a \<noteq> [] \<and> b \<noteq> [] \<and> (\<forall>r \<in> set rows. \<not> included a b r) \<longrightarrow>
        renderSankey d3g containerEl rows \<lparr>cfg_sourceCol = Some a, cfg_targetCol = Some b, cfg_showRefNums = rn\<rparr> =
          Inr (InnerHTML (placeholder ''No connections found. Check the selected columns for empty values.''))
        \<and> (\<exists>res. buildGraph d3g rows a b = Inr res \<and> nodes (graph res) = [] \<and> links (graph res) = []))
   \<and> (d3g \<longrightarrow> (\<exists>res. buildGraph d3g rows a b = Inr res))"
proof (intro conjI impI)
  assume "unset sc \<or> unset tc"
  then show "renderSankey d3g containerEl rows \<lparr>cfg_sourceCol = sc, cfg_targetCol = tc, cfg_showRefNums = rn\<rparr> =
        Inr (InnerHTML (placeholder ''Select source and target columns to render.''))"
    by (auto simp: renderSankey_def)
next
  assume h: "d3g \<and> a \<noteq> [] \<and> b \<noteq> [] \<and> (\<forall>r \<in> set rows. \<not> included a b r)"
  then obtain res where res: "buildGraph d3g rows a b = Inr res"
    using build_succeeds by blast
  have l: "links (graph res) = []" and n: "nodes (graph res) = []"
    using no_included_rows [OF res] h by simp_all
  show "renderSankey d3g containerEl rows \<lparr>cfg_sourceCol = Some a, cfg_targetCol = Some b, cfg_showRefNums = rn\<rparr> =
          Inr (InnerHTML (placeholder ''No connections found. Check the selected columns for empty values.''))"
    using h res l by (simp add: renderSankey_def unset_def Let_def)
  show "\<exists>res. buildGraph d3g rows a b = Inr res \<and> nodes (graph res) = [] \<and> links (graph res) = []"
    using res l n by blast
next
  assume "d3g"
  then show "\<exists>res. buildGraph d3g rows a b = Inr res" by (rule build_succeeds)
qed

lemma nothing_to_draw_examples:
  "renderSankey False \<lparr>clientWidth = 0, clientHeight = 0\<rparr> []
        \<lparr>cfg_sourceCol = None, cfg_targetCol = Some ''B'', cfg_showRefNums = True\<rparr> =
       Inr (InnerHTML (placeholder ''Select source and target columns to render.''))"
  "renderSankey True \<lparr>clientWidth = 0, clientHeight = 0\<rparr> [rowAB ''x'' [], rowAB ''  '' ''p'']
        \<lparr>cfg_sourceCol = Some ''A'', cfg_targetCol = Some ''B'', cfg_showRefNums = True\<rparr> =
       Inr (InnerHTML (placeholder ''No connections found. Check the selected columns for empty values.''))"
proof -
  have u: "unset None" by (simp add: unset_def)
  have e: "\<forall>r \<in> set [rowAB ''x'' [], rowAB ''  '' ''p'']. \<not> included ''A'' ''B'' r"
    by (simp add: included_def build_eval)
  have ne: "''A'' \<noteq> []" "''B'' \<noteq> []" by simp_all
  note t1 = nothing_to_draw [of None "Some ''B''" False "\<lparr>clientWidth = 0, clientHeight = 0\<rparr>" "[]" True]
  note t2 = nothing_to_draw [of None None True "\<lparr>clientWidth = 0, clientHeight = 0\<rparr>"
      "[rowAB ''x'' [], rowAB ''  '' ''p'']" True "''A''" "''B''"]
  from t1 u show "renderSankey False \<lparr>clientWidth = 0, clientHeight = 0\<rparr> []
        \<lparr>cfg_sourceCol = None, cfg_targetCol = Some ''B'', cfg_showRefNums = True\<rparr> =
       Inr (InnerHTML (placeholder ''Select source and target columns to render.''))"
    by blast
  from t2 e ne show "renderSankey True \<lparr>clientWidth = 0, clientHeight = 0\<rparr> [rowAB ''x'' [], rowAB ''  '' ''p'']
        \<lparr>cfg_sourceCol = Some ''A'', cfg_targetCol = Some ''B'', cfg_showRefNums = True\<rparr> =
       Inr (InnerHTML (placeholder ''No connections found. Check the selected columns for empty values.''))"
    by blast
qed

subsection \<open>Links whose ends are no nodes\<close>

lemma computeNodeLinks_resolved:
  "\<forall>l \<in> set ls. source l \<in> set ids \<and> target l \<in> set ids \<Longrightarrow> computeNodeLinks ids ls = Inr ()"
  by (induction ls) simp_all

text \<open>
  When no value of an included row contains the character \<open>|\<close>, the layout finds both
  ends of every link.
\<close>

lemma links_resolve_without_bars:
  assumes "\<And>r. r \<in> set rows \<Longrightarrow> included a b r \<Longrightarrow> barFree (getVal r a) \<and> barFree (getVal r b)"
    and "buildGraph d3g rows a b = Inr res"
  shows "computeNodeLinks (map nid (nodes (graph res))) (links (graph res)) = Inr ()"
  using pairs_without_bars(4) [OF assms] by (intro computeNodeLinks_resolved) simp

text \<open>
  C9. The claim that building and rendering raise no exception for a reason of the shape
  of the data, for all rows and columns, fails on \<^const>\<open>barRows\<close> with D3 loaded and
  both columns set: \<^verbatim>\<open>buildGraph\<close> returns one link from \<^verbatim>\<open>S:a\<close> to \<^verbatim>\<open>T:||b\<close>, neither
  the id of a node, the list of links is not empty, so no placeholder is written, and
  \<^verbatim>\<open>sankey(graph)\<close> raises \<^verbatim>\<open>Error("missing: S:a")\<close>, which \<^verbatim>\<open>renderSankey\<close> does not
  catch.
\<close>

theorem rendering_raises_on_bars:
  "renderSankey True containerEl barRows
     \<lparr>cfg_sourceCol = Some ''A'', cfg_targetCol = Some ''B'', cfg_showRefNums = rn\<rparr> =
   Inl (Error ''missing: S:a'')"
  by (simp add: renderSankey_def unset_def barRows_def build_eval)

subsection \<open>The two versions of the builder\<close>

lemma visitRow_old_eq: "visitRow_old a b = visitRow a b"
  by (intro ext)
     (simp add: visitRow_old_def visitRow_def getVal_old_def getVal_def safeStr_old_def safeStr_def
        sourceNode_def targetNode_def linkKey_def Let_def)

text \<open>
  C10. The \<^verbatim>\<open>buildGraph\<close> of the older rendering module and the \<^verbatim>\<open>buildGraph\<close> of the
  current one return the same result (the same nodes in the same order, the same links,
  keys, counts and reference ids, the same maximum, or the same error) for all rows and
  columns.
\<close>

theorem versions_agree:
  "buildGraph_old d3g rows sourceCol targetCol = buildGraph d3g rows sourceCol targetCol"
proof -
  have "(\<lambda>ke. let parts = split (fst ke) ''|||''
              in \<lparr>source = ''S:'' @ element parts 0, target = ''T:'' @ element parts 1,
                  val = count (snd ke)\<rparr>) = linkOf"
    by (intro ext) (simp add: linkOf_def Let_def)
  then show ?thesis
    by (simp add: buildGraph_old_def buildGraph_def visitRow_old_eq emptyBuilder_def)
qed

theorem versions_agree_witness:
  "buildGraph_old True exampleRows ''A'' ''B'' = Inr exampleResult"
  using versions_agree [of True exampleRows "''A''" "''B''"] example_build by simp

section \<open>Properties of the drag handlers\<close>

subsection \<open>What the loops leave unchanged\<close>

declare scan.simps [simp del]

lemma map_update_same: "(map f ns)[a := f (ns ! a)] = map f ns"
proof (cases "a < length ns")
  case True
  then have "f (ns ! a) = map f ns ! a" by simp
  then show ?thesis by (simp only: list_update_id)
next
  case False
  then have "length (map f ns) \<le> a" by simp
  then show ?thesis by (rule list_update_beyond)
qed

lemma place_static:
  "map nid (ns[n := (ns ! n)\<lparr>y0 := a, y1 := b\<rparr>]) = map nid ns"
  "map side (ns[n := (ns ! n)\<lparr>y0 := a, y1 := b\<rparr>]) = map side ns"
  using map_update_same [of nid ns n] map_update_same [of side ns n]
  by (simp_all add: map_update)

lemma packAll_length: "length (packAll hs xs y ns) = length ns"
  by (induction xs arbitrary: y ns) (simp_all add: Let_def)

lemma packAll_other: "n \<notin> set xs \<Longrightarrow> packAll hs xs y ns ! n = ns ! n"
  by (induction xs arbitrary: y ns) (auto simp: Let_def)

lemma packAll_nid: "map nid (packAll hs xs y ns) = map nid ns"
  by (induction xs arbitrary: y ns) (simp_all add: Let_def place_static)

lemma packAll_side: "map side (packAll hs xs y ns) = map side ns"
  by (induction xs arbitrary: y ns) (simp_all add: Let_def place_static)

lemma packPeers_length: "length (packPeers hs nh ins ps i y ns) = length ns"
  by (induction ps arbitrary: i y ns) (simp_all add: Let_def)

lemma packPeers_other: "n \<notin> set ps \<Longrightarrow> packPeers hs nh ins ps i y ns ! n = ns ! n"
  by (induction ps arbitrary: i y ns) (auto simp: Let_def)

lemma packPeers_nid: "map nid (packPeers hs nh ins ps i y ns) = map nid ns"
  by (induction ps arbitrary: i y ns) (simp_all add: Let_def place_static)

lemma packPeers_side: "map side (packPeers hs nh ins ps i y ns) = map side ns"
  by (induction ps arbitrary: i y ns) (simp_all add: Let_def place_static)

lemma onDrag_this:
  "peers (this (onDrag height y d sc)) = peers (this sc)"
  "heights (this (onDrag height y d sc)) = heights (this sc)"
  by (simp_all add: onDrag_def Let_def)

lemma onDrag_unfold:
  fixes height y :: real and d :: nat and sc :: scene
  defines "nh \<equiv> drawnHeight (layout sc ! d)"
  defines "ny \<equiv> max 20 (min (height - 20 - nh) y)"
  defines "ins \<equiv> scan (map (\<lambda>p. (y0 (layout sc ! p) + y1 (layout sc ! p)) / 2) (peersOr (this sc)))
                        (ny + nh / 2) 0"
  defines "ns1 \<equiv> packPeers (heightsOr (this sc)) nh ins (peersOr (this sc)) 0 20 (layout sc)"
  shows "onDrag height y d sc =
           \<lparr>layout = ns1[d := (ns1 ! d)\<lparr>y0 := ny, y1 := ny + nh\<rparr>],
            this = (this sc)\<lparr>insertIdx := Some ins\<rparr>\<rparr>"
  by (simp add: onDrag_def Let_def nh_def ny_def ins_def ns1_def)

lemma onDrag_static:
  "length (layout (onDrag height y d sc)) = length (layout sc)"
  "map nid (layout (onDrag height y d sc)) = map nid (layout sc)"
  "map side (layout (onDrag height y d sc)) = map side (layout sc)"
proof -
  show "length (layout (onDrag height y d sc)) = length (layout sc)"
    by (simp add: onDrag_unfold packPeers_length)
  have "map nid (layout (onDrag height y d sc)) =
        map nid (packPeers (heightsOr (this sc)) (drawnHeight (layout sc ! d))
          (scan (map (\<lambda>p. (y0 (layout sc ! p) + y1 (layout sc ! p)) / 2) (peersOr (this sc)))
             (max 20 (min (height - 20 - drawnHeight (layout sc ! d)) y) + drawnHeight (layout sc ! d) / 2) 0)
          (peersOr (this sc)) 0 20 (layout sc))"
    unfolding onDrag_unfold scene.simps by (rule place_static)
  then show "map nid (layout (onDrag height y d sc)) = map nid (layout sc)"
    by (simp add: packPeers_nid)
  have "map side (layout (onDrag height y d sc)) =
        map side (packPeers (heightsOr (this sc)) (drawnHeight (layout sc ! d))
          (scan (map (\<lambda>p. (y0 (layout sc ! p) + y1 (layout sc ! p)) / 2) (peersOr (this sc)))
             (max 20 (min (height - 20 - drawnHeight (layout sc ! d)) y) + drawnHeight (layout sc ! d) / 2) 0)
          (peersOr (this sc)) 0 20 (layout sc))"
    unfolding onDrag_unfold scene.simps by (rule place_static)
  then show "map side (layout (onDrag height y d sc)) = map side (layout sc)"
    by (simp add: packPeers_side)
qed

lemma moves_this:
  "peers (this (fold (\<lambda>y s. onDrag height y d s) moves sc)) = peers (this sc)"
  "heights (this (fold (\<lambda>y s. onDrag height y d s) moves sc)) = heights (this sc)"
  by (induction moves arbitrary: sc) (simp_all add: onDrag_this)

lemma moves_static:
  "length (layout (fold (\<lambda>y s. onDrag height y d s) moves sc)) = length (layout sc)"
  "map nid (layout (fold (\<lambda>y s. onDrag height y d s) moves sc)) = map nid (layout sc)"
  "map side (layout (fold (\<lambda>y s. onDrag height y d s) moves sc)) = map side (layout sc)"
  by (induction moves arbitrary: sc) (simp_all add: onDrag_static)

lemma static_nth:
  assumes "map f xs = map f ys" and "i < length xs"
  shows "f (xs ! i) = f (ys ! i)"
proof -
  have "length ys = length xs" using assms(1) by (metis length_map)
  with assms(2) have "map f xs ! i = f (xs ! i)" "map f ys ! i = f (ys ! i)" by simp_all
  with assms(1) show ?thesis by simp
qed


subsection \<open>The insertion index\<close>

lemma scan_spec:
  "i \<le> length cs \<Longrightarrow>
   i \<le> scan cs c i \<and> scan cs c i \<le> length cs \<and>
   (\<forall>j. i \<le> j \<and> j < scan cs c i \<longrightarrow> cs ! j < c) \<and>
   (scan cs c i < length cs \<longrightarrow> \<not> cs ! scan cs c i < c)"
proof (induction cs c i rule: scan.induct)
  case (1 centers newCenter i)
  show ?case
  proof (cases "i < length centers \<and> centers ! i < newCenter")
    case True
    then have step: "scan centers newCenter i = scan centers newCenter (i + 1)"
      by (subst scan.simps) simp
    from True have "i + 1 \<le> length centers" by simp
    from "1.IH" [OF True this]
    have IH: "i + 1 \<le> scan centers newCenter (i + 1)"
      "scan centers newCenter (i + 1) \<le> length centers"
      "\<forall>j. i + 1 \<le> j \<and> j < scan centers newCenter (i + 1) \<longrightarrow> centers ! j < newCenter"
      "scan centers newCenter (i + 1) < length centers \<longrightarrow>
         \<not> centers ! scan centers newCenter (i + 1) < newCenter"
      by blast+
    have "centers ! j < newCenter" if "i \<le> j" "j < scan centers newCenter (i + 1)" for j
    proof (cases "j = i")
      case True
      with \<open>i < length centers \<and> centers ! i < newCenter\<close> show ?thesis by simp
    next
      case False
      with that have "i + 1 \<le> j" by simp
      with IH(3) that show ?thesis by blast
    qed
    with IH show ?thesis unfolding step by auto
  next
    case False
    then have "scan centers newCenter i = i"
      by (subst scan.simps) auto
    with False "1.prems" show ?thesis by auto
  qed
qed

subsection \<open>The peers and the heights kept at the start\<close>

lemma set_peersOf:
  "set (peersOf ns d) =
     {i. i < length ns \<and> side (ns ! i) = side (ns ! d) \<and> nid (ns ! i) \<noteq> nid (ns ! d)}"
  by (auto simp: peersOf_def)

lemma distinct_peersOf: "distinct (peersOf ns d)"
  by (simp add: peersOf_def)

lemma fold_update_other:
  "k \<notin> f ` set ns \<Longrightarrow> map_of (fold (\<lambda>n m. AList.update (f n) (g n) m) ns al) k = map_of al k"
  by (induction ns arbitrary: al) (auto simp: AList.update_conv')

lemma fold_update_distinct:
  "distinct (map f ns) \<Longrightarrow> n \<in> set ns \<Longrightarrow>
   map_of (fold (\<lambda>n m. AList.update (f n) (g n) m) ns al) (f n) = Some (g n)"
proof (induction ns arbitrary: al)
  case Nil
  then show ?case by simp
next
  case (Cons x ns)
  show ?case
  proof (cases "n = x")
    case True
    with Cons.prems have "f x \<notin> f ` set ns" by auto
    with True show ?thesis by (simp add: fold_update_other AList.update_conv')
  next
    case False
    with Cons show ?thesis by auto
  qed
qed

lemma heightsOf_nth:
  "distinct (map nid ns) \<Longrightarrow> i < length ns \<Longrightarrow>
   map_of (heightsOf ns) (nid (ns ! i)) = Some (drawnHeight (ns ! i))"
  unfolding heightsOf_def by (rule fold_update_distinct) simp_all

lemma drawnHeight_ge: "8 \<le> drawnHeight n"
  by (simp add: drawnHeight_def)

lemma heightOf_start:
  assumes "distinct (map nid ns)" and "i < length ns" and "nid n = nid (ns ! i)"
  shows "heightOf (heightsOf ns) n = drawnHeight (ns ! i)"
  using heightsOf_nth [OF assms(1,2)] drawnHeight_ge [of "ns ! i"]
  by (simp add: heightOf_def assms(3))

subsection \<open>Stacked nodes\<close>

lemma stacked_cong:
  "(\<And>n. n \<in> set xs \<Longrightarrow> H n = G n) \<Longrightarrow> (\<And>n. n \<in> set xs \<Longrightarrow> ns ! n = ms ! n) \<Longrightarrow>
   stacked H ns xs y = stacked G ms xs y"
  by (induction xs arbitrary: y) auto

lemma packAll_stacked:
  "distinct xs \<Longrightarrow> \<forall>n \<in> set xs. n < length ns \<Longrightarrow>
   stacked (\<lambda>n. heightOf hs (ns ! n)) (packAll hs xs y ns) xs y"
proof (induction xs arbitrary: y ns)
  case Nil
  show ?case by simp
next
  case (Cons n rest)
  let ?h = "heightOf hs (ns ! n)"
  let ?ns1 = "ns[n := (ns ! n)\<lparr>y0 := y, y1 := y + ?h\<rparr>]"
  let ?res = "packAll hs rest (y + (?h + nodePad)) ?ns1"
  have n: "n < length ns" "n \<notin> set rest" using Cons.prems by auto
  have here: "?res ! n = ?ns1 ! n" using n by (simp add: packAll_other)
  have "stacked (\<lambda>m. heightOf hs (?ns1 ! m)) ?res rest (y + (?h + nodePad))"
    using Cons.prems by (intro Cons.IH) auto
  moreover have "stacked (\<lambda>m. heightOf hs (?ns1 ! m)) ?res rest (y + (?h + nodePad)) =
                 stacked (\<lambda>m. heightOf hs (ns ! m)) ?res rest (y + (?h + nodePad))"
  proof (rule stacked_cong)
    fix m assume "m \<in> set rest"
    with n have "m \<noteq> n" by auto
    then show "heightOf hs (?ns1 ! m) = heightOf hs (ns ! m)" by simp
  qed simp
  ultimately have "stacked (\<lambda>m. heightOf hs (ns ! m)) ?res rest (y + (?h + nodePad))" by simp
  then show ?case using here n by (simp add: Let_def)
qed

lemma stacked_below:
  "stacked H ns xs y \<Longrightarrow> \<forall>n \<in> set xs. 0 \<le> H n \<Longrightarrow> \<forall>n \<in> set xs. y \<le> y0 (ns ! n)"
proof (induction xs arbitrary: y)
  case Nil
  show ?case by simp
next
  case (Cons n rest)
  have "\<forall>m \<in> set rest. y + (H n + nodePad) \<le> y0 (ns ! m)"
    using Cons.prems by (intro Cons.IH) auto
  moreover have "0 \<le> H n + nodePad" using Cons.prems(2) by (simp add: nodePad_def)
  ultimately show ?case using Cons.prems(1) by auto
qed

lemma stacked_apart:
  "stacked H ns xs y \<Longrightarrow> \<forall>n \<in> set xs. 0 \<le> H n \<Longrightarrow>
   sorted_wrt (\<lambda>m n. y1 (ns ! m) + nodePad \<le> y0 (ns ! n)) xs"
proof (induction xs arbitrary: y)
  case Nil
  show ?case by simp
next
  case (Cons n rest)
  have "\<forall>m \<in> set rest. y + (H n + nodePad) \<le> y0 (ns ! m)"
    using Cons.prems by (intro stacked_below [of H ns rest]) auto
  moreover have "sorted_wrt (\<lambda>m n. y1 (ns ! m) + nodePad \<le> y0 (ns ! n)) rest"
    using Cons.prems by (intro Cons.IH [of "y + (H n + nodePad)"]) auto
  ultimately show ?case using Cons.prems(1) by (auto simp: add.assoc)
qed

lemma stacked_height:
  "stacked H ns xs y \<Longrightarrow> \<forall>n \<in> set xs. y1 (ns ! n) - y0 (ns ! n) = H n"
  by (induction xs arbitrary: y) auto

lemma stacked_bottom:
  "stacked H ns xs y \<Longrightarrow> \<forall>n \<in> set xs. 0 \<le> H n \<Longrightarrow> xs \<noteq> [] \<Longrightarrow>
   (\<forall>n \<in> set xs. y1 (ns ! n) \<le> y + sum_list (map H xs) + nodePad * real (length xs - 1)) \<and>
   y1 (ns ! last xs) = y + sum_list (map H xs) + nodePad * real (length xs - 1)"
proof (induction xs arbitrary: y)
  case Nil
  then show ?case by simp
next
  case (Cons n rest)
  show ?case
  proof (cases "rest = []")
    case True
    with Cons.prems show ?thesis by simp
  next
    case False
    have IH: "(\<forall>m \<in> set rest. y1 (ns ! m) \<le> y + (H n + nodePad) + sum_list (map H rest) + nodePad * real (length rest - 1)) \<and>
          y1 (ns ! last rest) = y + (H n + nodePad) + sum_list (map H rest) + nodePad * real (length rest - 1)"
      using Cons.prems False by (intro Cons.IH) auto
    have len: "real (length (n # rest) - 1) = real (length rest - 1) + 1"
      using False by (cases rest) simp_all
    have nonneg: "0 \<le> sum_list (map H rest)"
      using Cons.prems(2) by (intro sum_list_nonneg) auto
    have pad: "0 \<le> nodePad * real (length rest - 1)" by (simp add: nodePad_def)
    have top: "y1 (ns ! n) = y + H n" using Cons.prems(1) by simp
    show ?thesis
      using IH False nonneg pad top unfolding len
      by (auto simp: algebra_simps nodePad_def)
  qed
qed


lemma sorted_wrt_either:
  "sorted_wrt R xs \<Longrightarrow> a \<in> set xs \<Longrightarrow> b \<in> set xs \<Longrightarrow> a \<noteq> b \<Longrightarrow> R a b \<or> R b a"
  by (induction xs) auto

lemma fold_update_value:
  "map_of (fold (\<lambda>n m. AList.update (f n) (g n) m) ns al) k = Some v \<Longrightarrow>
   v \<in> g ` set ns \<or> map_of al k = Some v"
  by (induction ns arbitrary: al) (fastforce simp: AList.update_conv' split: if_splits)+

lemma heightOf_ge: "8 \<le> heightOf (heightsOf ns) n"
proof (cases "map_of (heightsOf ns) (nid n)")
  case None
  then show ?thesis by (simp add: heightOf_def drawnHeight_ge)
next
  case (Some v)
  then have "v \<in> drawnHeight ` set ns"
    unfolding heightsOf_def by (auto dest: fold_update_value)
  then have "8 \<le> v" by (auto simp: drawnHeight_ge)
  with Some show ?thesis by (simp add: heightOf_def drawnHeight_ge)
qed

subsection \<open>A gesture\<close>

lemma started:
  "peersOr (this (fold (\<lambda>y s. onDrag height y d s) moves (onStart d sc))) = peersOf (layout sc) d"
  "heightsOr (this (fold (\<lambda>y s. onDrag height y d s) moves (onStart d sc))) = heightsOf (layout sc)"
  "length (layout (fold (\<lambda>y s. onDrag height y d s) moves (onStart d sc))) = length (layout sc)"
  "map nid (layout (fold (\<lambda>y s. onDrag height y d s) moves (onStart d sc))) = map nid (layout sc)"
  "map side (layout (fold (\<lambda>y s. onDrag height y d s) moves (onStart d sc))) = map side (layout sc)"
  by (simp_all add: peersOr_def heightsOr_def moves_this moves_static onStart_def)

lemma set_ordered: "set (ordered d e) = insert d (set (peersOr e))"
proof -
  have "set (take n xs) \<union> set (drop n xs) = set xs" for n and xs :: "nat list"
    by (metis append_take_drop_id set_append)
  then show ?thesis by (auto simp: ordered_def Let_def)
qed

lemma distinct_ordered: "distinct (peersOr e) \<Longrightarrow> d \<notin> set (peersOr e) \<Longrightarrow> distinct (ordered d e)"
proof -
  assume a: "distinct (peersOr e)" "d \<notin> set (peersOr e)"
  have "distinct (take n xs @ [d] @ drop n xs)" if "distinct xs" "d \<notin> set xs" for n and xs :: "nat list"
  proof -
    have "set (take n xs) \<inter> set (drop n xs) = {}"
      using that(1) by (intro set_take_disj_set_drop_if_distinct) simp_all
    moreover have "d \<notin> set (take n xs)" "d \<notin> set (drop n xs)"
      using that by (auto dest: in_set_takeD in_set_dropD)
    ultimately show ?thesis using that(1) by auto
  qed
  with a show ?thesis by (simp add: ordered_def Let_def)
qed

lemma column_peers:
  "d < length ns \<Longrightarrow> distinct (map nid ns) \<Longrightarrow> insert d (set (peersOf ns d)) = column ns d"
  by (auto simp: set_peersOf column_def distinct_conv_nth)

subsection \<open>Evaluation on the example layouts\<close>

lemmas drag_eval =
  gesture_def onStart_def onDrag_def onEnd_def peersOf_def heightsOf_def ordered_def
  peersOr_def heightsOr_def heightOf_def drawnHeight_def nodePad_def placed_def
  sourceNode_def targetNode_def scan.simps Let_def

lemma upt3: "[0..<3] = [0, 1, 2]"
  by (simp add: upt_rec)

lemma skewed_gesture:
  "gesture 480 1 [458] skewedScene =
     \<lparr>layout = [placed (sourceNode ''x'') 20 444, placed (sourceNode ''y'') 458 466,
                placed (targetNode ''p'') 27 453],
      this = \<lparr>peers = Some [0], heights = Some [(''S:x'', 424), (''S:y'', 8), (''T:p'', 426)],
              insertIdx = Some 1\<rparr>\<rparr>"
  by (simp add: skewedScene_def drag_eval upt3)

lemma example_gesture:
  "gesture 480 1 [0] exampleScene =
     \<lparr>layout = [placed (sourceNode ''x'') 176 460, placed (sourceNode ''y'') 20 162,
                placed (targetNode ''p'') 27 453],
      this = \<lparr>peers = Some [0], heights = Some [(''S:x'', 284), (''S:y'', 142), (''T:p'', 426)],
              insertIdx = Some 0\<rparr>\<rparr>"
  by (simp add: exampleScene_def drag_eval upt3)

lemma example_peers: "peersOf (layout exampleScene) (Suc 0) = [0]"
  by (simp add: exampleScene_def peersOf_def placed_def sourceNode_def targetNode_def upt3)

lemma example_move:
  "onDrag 480 400 (Suc 0) (onStart (Suc 0) exampleScene) =
     \<lparr>layout = [placed (sourceNode ''x'') 20 304, placed (sourceNode ''y'') 318 460,
                placed (targetNode ''p'') 27 453],
      this = \<lparr>peers = Some [0], heights = Some [(''S:x'', 284), (''S:y'', 142), (''T:p'', 426)],
              insertIdx = Some 1\<rparr>\<rparr>"
  by (simp add: exampleScene_def drag_eval upt3)

subsection \<open>The insertion index of a move\<close>

text \<open>
  C6. In a move of a gesture on \<open>d\<close> (after the start and any number of earlier moves),
  the top of \<open>d\<close> is the pointer position clamped between 20 and the height of the
  drawing minus 20 minus the height of \<open>d\<close>, and the insertion index kept on the
  element is the first index of the list of peers captured at the start whose centre is
  not below the centre of \<open>d\<close> at the clamped position, or the length of that list when
  there is none. When all centres are below the centre of \<open>d\<close>, the index is the length
  of the list, the order used by the end handler is the peers followed by \<open>d\<close>, and
  after the end \<open>d\<close> lies below every peer.
\<close>

theorem insert_index_rule:
  fixes height y :: real and moves :: "real list" and d :: nat and sc0 :: scene
  assumes "d < length (layout sc0)"
  defines "sc \<equiv> fold (\<lambda>y s. onDrag height y d s) moves (onStart d sc0)"
  defines "ps \<equiv> peersOf (layout sc0) d"
  defines "h \<equiv> drawnHeight (layout sc ! d)"
  defines "newY0 \<equiv> max 20 (min (height - 20 - h) y)"
  defines "centers \<equiv> map (\<lambda>p. (y0 (layout sc ! p) + y1 (layout sc ! p)) / 2) ps"
  defines "sc' \<equiv> onDrag height y d sc"
  shows "\<exists>k. insertIdx (this sc') = Some k \<and> k \<le> length ps
           \<and> (\<forall>j < k. centers ! j < newY0 + h / 2)
           \<and> (k < length ps \<longrightarrow> newY0 + h / 2 \<le> centers ! k)
           \<and> y0 (layout sc' ! d) = newY0 \<and> y1 (layout sc' ! d) = newY0 + h
           \<and> ((\<forall>c \<in> set centers. c < newY0 + h / 2) \<longrightarrow>
                k = length ps \<and> ordered d (this sc') = ps @ [d]
                \<and> (\<forall>p \<in> set ps. y1 (layout (onEnd d sc') ! p) + nodePad \<le> y0 (layout (onEnd d sc') ! d)))"
proof -
  let ?c = "newY0 + h / 2"
  let ?k = "scan centers ?c 0"
  let ?hs = "heightsOf (layout sc0)"
  have ps: "peersOr (this sc) = ps" and hs: "heightsOr (this sc) = ?hs"
    and len: "length (layout sc) = length (layout sc0)"
    by (simp_all add: sc_def ps_def started)
  have this': "this sc' = (this sc)\<lparr>insertIdx := Some ?k\<rparr>"
    by (simp add: sc'_def onDrag_unfold ps centers_def newY0_def h_def)
  have idx: "insertIdx (this sc') = Some ?k" by (simp add: this')
  have ps': "peersOr (this sc') = ps" and hs': "heightsOr (this sc') = ?hs"
    using ps hs by (simp_all add: this' peersOr_def heightsOr_def)
  have len': "length (layout sc') = length (layout sc0)"
    by (simp add: sc'_def onDrag_static len)
  have lc: "length centers = length ps" by (simp add: centers_def)
  from scan_spec [of 0 centers ?c]
  have k: "?k \<le> length ps" "\<forall>j < ?k. centers ! j < ?c" "?k < length ps \<longrightarrow> \<not> centers ! ?k < ?c"
    by (simp_all add: lc)
  have dd: "y0 (layout sc' ! d) = newY0 \<and> y1 (layout sc' ! d) = newY0 + h"
    using assms(1) by (simp add: sc'_def onDrag_unfold packPeers_length len newY0_def h_def)
  have past: "?k = length ps \<and> ordered d (this sc') = ps @ [d]
                \<and> (\<forall>p \<in> set ps. y1 (layout (onEnd d sc') ! p) + nodePad \<le> y0 (layout (onEnd d sc') ! d))"
    if all: "\<forall>c \<in> set centers. c < ?c"
  proof -
    have kl: "?k = length ps"
    proof (rule ccontr)
      assume "?k \<noteq> length ps"
      with k(1) have lt: "?k < length ps" by simp
      then have "centers ! ?k \<in> set centers" by (simp add: lc)
      with all k(3) lt show False by blast
    qed
    have ord: "ordered d (this sc') = ps @ [d]"
      by (simp add: ordered_def ps' idx kl)
    have dps: "d \<notin> set ps" by (simp add: ps_def set_peersOf)
    have dist: "distinct (ps @ [d])" using dps by (simp add: ps_def distinct_peersOf)
    have inside: "\<forall>n \<in> set (ps @ [d]). n < length (layout sc')"
      using assms(1) by (auto simp: len' ps_def set_peersOf)
    have end_layout: "layout (onEnd d sc') = packAll ?hs (ps @ [d]) 20 (layout sc')"
      by (simp add: onEnd_def ord hs')
    have "stacked (\<lambda>n. heightOf ?hs (layout sc' ! n)) (layout (onEnd d sc')) (ps @ [d]) 20"
      unfolding end_layout using dist inside by (rule packAll_stacked)
    moreover have "\<forall>n \<in> set (ps @ [d]). 0 \<le> heightOf ?hs (layout sc' ! n)"
      using heightOf_ge by (auto intro: order_trans [of 0 8])
    ultimately have "sorted_wrt (\<lambda>m n. y1 (layout (onEnd d sc') ! m) + nodePad \<le> y0 (layout (onEnd d sc') ! n)) (ps @ [d])"
      by (rule stacked_apart)
    then have "\<forall>p \<in> set ps. y1 (layout (onEnd d sc') ! p) + nodePad \<le> y0 (layout (onEnd d sc') ! d)"
      by (simp add: sorted_wrt_append)
    with kl ord show ?thesis by blast
  qed
  have ge: "?k < length ps \<longrightarrow> ?c \<le> centers ! ?k" using k(3) by auto
  from idx k(1,2) ge dd past show ?thesis by blast
qed

theorem insert_index_rule_witness:
  "1 < length (layout exampleScene)
   \<and> peersOf (layout exampleScene) 1 = [0]
   \<and> (y0 (layout exampleScene ! 0) + y1 (layout exampleScene ! 0)) / 2 < 318 + 142 / 2
   \<and> insertIdx (this (onDrag 480 400 1 (onStart 1 exampleScene))) = Some 1
   \<and> y0 (layout (onDrag 480 400 1 (onStart 1 exampleScene)) ! 1) = 318
   \<and> ordered 1 (this (onDrag 480 400 1 (onStart 1 exampleScene))) = [0, 1]
   \<and> y1 (layout (onEnd 1 (onDrag 480 400 1 (onStart 1 exampleScene))) ! 0) + nodePad
       \<le> y0 (layout (onEnd 1 (onDrag 480 400 1 (onStart 1 exampleScene))) ! 1)"
proof -
  have h1: "1 < length (layout exampleScene)" by (simp add: exampleScene_def)
  have start: "layout (onStart (Suc 0) exampleScene) = layout exampleScene"
    by (simp add: onStart_def)
  have vals: "y0 (layout exampleScene ! 0) = 20" "y1 (layout exampleScene ! 0) = 304"
    "drawnHeight (layout exampleScene ! Suc 0) = 142"
    by (simp_all add: exampleScene_def placed_def drawnHeight_def)
  from insert_index_rule [OF h1, where height = 480 and y = 400 and moves = "[]"]
  show ?thesis
    using h1 by (simp add: example_peers start vals)
qed

subsection \<open>The column after the end of a gesture\<close>

text \<open>
  C7, as stated, fails. In \<^const>\<open>skewedScene\<close> the node \<open>y\<close> is 2 high and ends at the
  bottom 460 of its column. A gesture on it with one move packs the column with the
  drawn height 8 of \<open>y\<close>: afterwards \<open>y\<close> ends at 466, below the bottom of the column.
\<close>

theorem packed_column_overflows:
  "1 \<in> column (layout skewedScene) 1
   \<and> y1 (layout skewedScene ! 1) \<le> 480 - 20
   \<and> \<not> y1 (layout (gesture 480 1 [458] skewedScene) ! 1) \<le> 480 - 20"
proof -
  have "y1 (layout (gesture 480 1 [458] skewedScene) ! 1) = 466"
    unfolding skewed_gesture by (simp add: placed_def)
  moreover have "1 \<in> column (layout skewedScene) 1" "y1 (layout skewedScene ! 1) \<le> 480 - 20"
    by (simp_all add: skewedScene_def column_def placed_def)
  ultimately show ?thesis by simp
qed


text \<open>
  C7, amended. After a gesture of a start, any moves and an end on a node \<open>d\<close> of a
  layout whose node ids are distinct, the nodes of the column of \<open>d\<close> are stacked from
  the top 20 of the column in the order of the end handler, each with the height it was
  drawn with at the start (at least 8), with the padding 14 between neighbours and no
  other gap: no two of them overlap, none starts above the top of the column, and they
  all end within the bottom of the column exactly when the packed height, the sum of
  the drawn heights plus the paddings, fits between 20 and the height of the drawing
  minus 20.
\<close>

theorem packed_after_end:
  fixes height :: real and moves :: "real list" and d :: nat and sc :: scene
  assumes "d < length (layout sc)" and "distinct (map nid (layout sc))"
  defines "ns' \<equiv> layout (gesture height d moves sc)"
  defines "col \<equiv> column (layout sc) d"
  defines "xs \<equiv> ordered d (this (fold (\<lambda>y s. onDrag height y d s) moves (onStart d sc)))"
  shows "set xs = col \<and> distinct xs
       \<and> stacked (\<lambda>n. drawnHeight (layout sc ! n)) ns' xs 20
       \<and> (\<forall>i \<in> col. \<forall>j \<in> col. i \<noteq> j \<longrightarrow>
            y1 (ns' ! i) + nodePad \<le> y0 (ns' ! j) \<or> y1 (ns' ! j) + nodePad \<le> y0 (ns' ! i))
       \<and> (\<forall>i \<in> col. 20 \<le> y0 (ns' ! i) \<and> y1 (ns' ! i) - y0 (ns' ! i) = drawnHeight (layout sc ! i))
       \<and> ((\<forall>i \<in> col. y1 (ns' ! i) \<le> height - 20) \<longleftrightarrow>
            20 + (\<Sum>i \<in> col. drawnHeight (layout sc ! i)) + nodePad * real (card col - 1) \<le> height - 20)"
proof -
  let ?sM = "fold (\<lambda>y s. onDrag height y d s) moves (onStart d sc)"
  let ?hs = "heightsOf (layout sc)"
  let ?ps = "peersOf (layout sc) d"
  let ?H = "\<lambda>n. drawnHeight (layout sc ! n)"
  have set_xs: "set xs = col"
    using assms(1,2) by (simp add: xs_def col_def set_ordered started column_peers)
  have dist: "distinct xs"
    unfolding xs_def by (rule distinct_ordered) (simp_all add: started distinct_peersOf set_peersOf)
  have inside: "\<forall>n \<in> set xs. n < length (layout ?sM)"
    by (simp add: set_xs col_def column_def started)
  have ns': "ns' = packAll ?hs xs 20 (layout ?sM)"
    by (simp add: ns'_def gesture_def onEnd_def xs_def started)
  have "stacked (\<lambda>n. heightOf ?hs (layout ?sM ! n)) ns' xs 20"
    unfolding ns' using dist inside by (rule packAll_stacked)
  moreover have "stacked (\<lambda>n. heightOf ?hs (layout ?sM ! n)) ns' xs 20 = stacked ?H ns' xs 20"
  proof (rule stacked_cong)
    fix n assume "n \<in> set xs"
    then have n: "n < length (layout sc)" by (simp add: set_xs col_def column_def)
    then have "n < length (layout ?sM)" by (simp add: started)
    with started(4) have "nid (layout ?sM ! n) = nid (layout sc ! n)" by (rule static_nth)
    with assms(2) n show "heightOf ?hs (layout ?sM ! n) = ?H n" by (rule heightOf_start)
  qed simp
  ultimately have st: "stacked ?H ns' xs 20" by simp
  have nonneg: "\<forall>n \<in> set xs. 0 \<le> ?H n"
    using drawnHeight_ge by (auto intro: order_trans [of 0 8])
  have apart: "sorted_wrt (\<lambda>m n. y1 (ns' ! m) + nodePad \<le> y0 (ns' ! n)) xs"
    using st nonneg by (rule stacked_apart)
  have 1: "\<forall>i \<in> col. \<forall>j \<in> col. i \<noteq> j \<longrightarrow>
            y1 (ns' ! i) + nodePad \<le> y0 (ns' ! j) \<or> y1 (ns' ! j) + nodePad \<le> y0 (ns' ! i)"
    using sorted_wrt_either [OF apart] by (auto simp: set_xs)
  have 2: "\<forall>i \<in> col. 20 \<le> y0 (ns' ! i) \<and> y1 (ns' ! i) - y0 (ns' ! i) = ?H i"
    using stacked_below [OF st nonneg] stacked_height [OF st] by (simp add: set_xs)
  have "d \<in> set xs" by (simp add: xs_def set_ordered)
  then have ne: "xs \<noteq> []" by auto
  have total: "sum_list (map ?H xs) = (\<Sum>i \<in> col. ?H i)" "length xs = card col"
    using dist by (simp_all add: sum_list_distinct_conv_sum_set distinct_card flip: set_xs)
  note bottom = stacked_bottom [OF st nonneg ne, unfolded total]
  have "last xs \<in> col" using ne by (simp flip: set_xs)
  with bottom have 3: "(\<forall>i \<in> col. y1 (ns' ! i) \<le> height - 20) \<longleftrightarrow>
      20 + (\<Sum>i \<in> col. ?H i) + nodePad * real (card col - 1) \<le> height - 20"
    unfolding set_xs by (metis order_trans)
  from set_xs dist st 1 2 3 show ?thesis by blast
qed


theorem packed_after_end_witness:
  "1 < length (layout exampleScene) \<and> distinct (map nid (layout exampleScene))
   \<and> column (layout exampleScene) 1 = {0, 1}
   \<and> layout (gesture 480 1 [0] exampleScene) =
       [placed (sourceNode ''x'') 176 460, placed (sourceNode ''y'') 20 162, placed (targetNode ''p'') 27 453]
   \<and> y1 (layout (gesture 480 1 [0] exampleScene) ! 1) + nodePad
       \<le> y0 (layout (gesture 480 1 [0] exampleScene) ! 0)
   \<and> 20 \<le> y0 (layout (gesture 480 1 [0] exampleScene) ! 1)
   \<and> y1 (layout (gesture 480 1 [0] exampleScene) ! 0) \<le> 480 - 20
   \<and> y1 (layout (gesture 480 1 [0] exampleScene) ! 1) \<le> 480 - 20"
proof -
  have h1: "1 < length (layout exampleScene)" by (simp add: exampleScene_def)
  have h2: "distinct (map nid (layout exampleScene))"
    by (simp add: exampleScene_def placed_def sourceNode_def targetNode_def)
  have col: "column (layout exampleScene) 1 = {0, 1}"
    by (auto simp: exampleScene_def column_def placed_def sourceNode_def targetNode_def less_Suc_eq)
  have fits: "20 + (\<Sum>i \<in> column (layout exampleScene) 1. drawnHeight (layout exampleScene ! i)) +
      nodePad * real (card (column (layout exampleScene) 1) - 1) \<le> 480 - 20"
    unfolding col by (simp add: exampleScene_def placed_def drawnHeight_def nodePad_def)
  have res: "layout (gesture 480 1 [0] exampleScene) =
       [placed (sourceNode ''x'') 176 460, placed (sourceNode ''y'') 20 162, placed (targetNode ''p'') 27 453]"
    unfolding example_gesture by simp
  have above: "\<not> y1 (layout (gesture 480 1 [0] exampleScene) ! 0) + nodePad
       \<le> y0 (layout (gesture 480 1 [0] exampleScene) ! 1)"
    unfolding res by (simp add: placed_def nodePad_def)
  note t = packed_after_end [OF h1 h2, of 480 "[0]", unfolded col]
  from t have "y1 (layout (gesture 480 1 [0] exampleScene) ! 0) + nodePad
       \<le> y0 (layout (gesture 480 1 [0] exampleScene) ! 1) \<or>
     y1 (layout (gesture 480 1 [0] exampleScene) ! 1) + nodePad
       \<le> y0 (layout (gesture 480 1 [0] exampleScene) ! 0)"
    by (metis insertI1 insertI2 zero_neq_one)
  with above have 1: "y1 (layout (gesture 480 1 [0] exampleScene) ! 1) + nodePad
       \<le> y0 (layout (gesture 480 1 [0] exampleScene) ! 0)"
    by blast
  from t have 2: "20 \<le> y0 (layout (gesture 480 1 [0] exampleScene) ! 1)"
    by blast
  from t fits [unfolded col]
  have 3: "y1 (layout (gesture 480 1 [0] exampleScene) ! 0) \<le> 480 - 20"
    "y1 (layout (gesture 480 1 [0] exampleScene) ! 1) \<le> 480 - 20"
    by blast+
  from h1 h2 col res 1 2 3 show ?thesis by blast
qed

subsection \<open>Determinism of a gesture\<close>

text \<open>
  C8. Two gestures on the same node with the same layout at the start and the same
  sequence of pointer values, with at least one move, end in the same scene (the same
  extents of all nodes) and with the same order in the end handler, whatever an earlier
  gesture has left on the element.
\<close>

theorem drag_determinism:
  assumes "moves \<noteq> []" and "layout sc1 = layout sc2"
  shows "gesture height d moves sc1 = gesture height d moves sc2
       \<and> ordered d (this (fold (\<lambda>y s. onDrag height y d s) moves (onStart d sc1))) =
         ordered d (this (fold (\<lambda>y s. onDrag height y d s) moves (onStart d sc2)))"
proof -
  obtain y ys where moves: "moves = y # ys" using assms(1) by (cases moves) auto
  have this_eq: "e1\<lparr>peers := a, heights := b, insertIdx := c\<rparr> = e2\<lparr>peers := a, heights := b, insertIdx := c\<rparr>"
    for e1 e2 :: element_state and a b c
    by (cases e1, cases e2) simp
  have first: "onDrag height y d (onStart d sc1) = onDrag height y d (onStart d sc2)"
    using assms(2) by (simp add: onDrag_def onStart_def Let_def peersOr_def heightsOr_def this_eq)
  then have "fold (\<lambda>y s. onDrag height y d s) moves (onStart d sc1) =
             fold (\<lambda>y s. onDrag height y d s) moves (onStart d sc2)"
    by (simp add: moves)
  then show ?thesis by (simp add: gesture_def)
qed

theorem drag_determinism_witness:
  "[458 :: real] \<noteq> [] \<and> layout staleScene = layout skewedScene \<and> this staleScene \<noteq> this skewedScene
   \<and> gesture 480 1 [458] staleScene = gesture 480 1 [458] skewedScene
   \<and> ordered 1 (this (fold (\<lambda>y s. onDrag 480 y 1 s) [458] (onStart 1 staleScene))) =
     ordered 1 (this (fold (\<lambda>y s. onDrag 480 y 1 s) [458] (onStart 1 skewedScene)))"
proof -
  have h1: "[458 :: real] \<noteq> []" by simp
  have h2: "layout staleScene = layout skewedScene" by (simp add: staleScene_def)
  have h3: "this staleScene \<noteq> this skewedScene" by (simp add: staleScene_def skewedScene_def)
  from drag_determinism [OF h1 h2, of 480 1] h1 h2 h3 show ?thesis by blast
qed

text \<open>
  A gesture without a move is outside this statement: its end handler reads the
  insertion index that an earlier gesture left on the element, and takes 0 when there
  is none.
\<close>

lemma end_without_move:
  "ordered 1 (this (onStart 1 staleScene)) = [0, 1]"
  "ordered 1 (this (onStart 1 skewedScene)) = [1, 0]"
  by (simp_all add: staleScene_def skewedScene_def drag_eval upt3)

end
